theory Spec2Isabelle
  imports Main "HOL-Library.Word"
begin

unbundle bit_operations_syntax

section \<open>The PortAudio output stage of the decoder (decode\_portaudio.c)\<close>

text \<open>
  The file holds the render callback that PortAudio calls for every hardware buffer, the
  stream-finished notifier, and the routines that open, start and stop the stream. The
  embedding keeps the C names. Integers have the widths of the 32-bit target of the
  player firmware: \<open>int\<close>, \<open>unsigned long\<close>, \<open>size_t\<close> and \<open>u32_t\<close> are 32-bit words,
  so \<open>+\<close>, \<open>-\<close> and \<open>*\<close> wrap as in C, and \<open>div\<close> on words is the unsigned division.
  Pointers into a buffer are byte offsets (\<open>nat\<close>) into a list of bytes. The logging
  macros only write to the log and are left out.
\<close>

type_synonym byte = "8 word"
type_synonym sample_t = "32 word"
type_synonym size_t = "32 word"
type_synonym u32_t = "32 word"
type_synonym c_int = "32 word"

subsection \<open>Samples in memory\<close>

text \<open>
  \<open>sample_t\<close> is a 32-bit sample (the stream is opened with \<open>paInt32\<close>, two
  channels). A sample occupies four bytes, least significant byte first. \<open>load32\<close> is
  the read \<open>*(sample_t *)(buf + p)\<close> and \<open>store32\<close> the write through such a
  pointer. C leaves an access past the end of a buffer undefined; here a write past the
  end of the list is dropped, and the properties below are stated for buffers of the
  length their callers provide (the output buffer holds the bytes of the frames asked
  for, \<open>decode_fifo_buf\<close> the capacity of the ring buffer).
\<close>

definition sample_bytes :: "sample_t \<Rightarrow> byte list" where
  "sample_bytes v = [ucast v, ucast (drop_bit 8 v), ucast (drop_bit 16 v), ucast (drop_bit 24 v)]"

definition bytes_sample :: "byte \<Rightarrow> byte \<Rightarrow> byte \<Rightarrow> byte \<Rightarrow> sample_t" where
  "bytes_sample b0 b1 b2 b3 =
     ucast b0 OR push_bit 8 (ucast b1) OR push_bit 16 (ucast b2) OR push_bit 24 (ucast b3)"

definition load32 :: "byte list \<Rightarrow> nat \<Rightarrow> sample_t" where
  "load32 m p = bytes_sample (m ! p) (m ! (p + 1)) (m ! (p + 2)) (m ! (p + 3))"

definition store32 :: "byte list \<Rightarrow> nat \<Rightarrow> sample_t \<Rightarrow> byte list" where
  "store32 m p v =
     (let b = sample_bytes v
      in m[p := b ! 0, p + 1 := b ! 1, p + 2 := b ! 2, p + 3 := b ! 3])"

text \<open>\<open>memset(m + p, 0, n)\<close>.\<close>

definition memset0 :: "byte list \<Rightarrow> nat \<Rightarrow> nat \<Rightarrow> byte list" where
  "memset0 m p n = map (\<lambda>i. if p \<le> i \<and> i < p + n then 0 else m ! i) [0..<length m]"

subsection \<open>Declarations of the decoder's private headers\<close>

text \<open>
  Modelled from the spec: \<open>SAMPLES_TO_BYTES\<close> and \<open>BYTES_TO_SAMPLES\<close> of
  audio/decode/decode\_priv.h, which is not part of the sources at hand. A frame is one
  stereo pair of samples, \<open>2 * sizeof(sample_t)\<close> bytes.
\<close>

definition SAMPLES_TO_BYTES :: "32 word \<Rightarrow> size_t" where
  "SAMPLES_TO_BYTES n = 2 * n * 4"

definition BYTES_TO_SAMPLES :: "size_t \<Rightarrow> size_t" where
  "BYTES_TO_SAMPLES n = n div (2 * 4)"

text \<open>
  Modelled from the spec: the two bits of the playback state word that the callback
  tests and changes (running flag, underrun flag); two distinct single bits.
\<close>

definition DECODE_STATE_RUNNING :: u32_t where
  "DECODE_STATE_RUNNING = 1"

definition DECODE_STATE_UNDERRUN :: u32_t where
  "DECODE_STATE_UNDERRUN = 2"

text \<open>
  Modelled from the spec: the ring buffer of audio/fifo.h, which is not part of the
  sources at hand: a capacity, a read index and the decoder's write index, with
  \<open>bytes_used\<close>, \<open>bytes_until_wrap_from_read\<close> and \<open>advance_read\<close>; index
  arithmetic is modulo the capacity.
\<close>

record fifo =
  rptr :: size_t
  wptr :: size_t
  fifo_size :: size_t

definition fifo_bytes_used :: "fifo \<Rightarrow> size_t" where
  "fifo_bytes_used f =
     (if rptr f \<le> wptr f then wptr f - rptr f else fifo_size f - rptr f + wptr f)"

definition fifo_bytes_until_rptr_wrap :: "fifo \<Rightarrow> size_t" where
  "fifo_bytes_until_rptr_wrap f = fifo_size f - rptr f"

definition fifo_rptr_incby :: "fifo \<Rightarrow> size_t \<Rightarrow> fifo" where
  "fifo_rptr_incby f incby = f\<lparr>rptr := (rptr f + incby) mod fifo_size f\<rparr>"

text \<open>
  The fields of \<open>struct decode_audio\<close> that this file reads and writes (the struct is
  declared in decode\_priv.h).
\<close>

record decode_audio =
  fifo :: fifo
  state :: u32_t
  lgain :: sample_t
  rgain :: sample_t
  add_silence_ms :: c_int
  skip_ahead_bytes :: size_t
  elapsed_samples :: u32_t
  track_sample_rate :: u32_t
  set_sample_rate :: u32_t
  max_rate :: u32_t

subsection \<open>The state of the file and the calls it makes\<close>

text \<open>
  Calls out of the file are recorded in a trace, in program order: the audio lock, the
  effects mixer (with the byte length passed), and the PortAudio stream calls.
\<close>

datatype event =
    Audio_lock
  | Audio_unlock
  | Sample_mix nat
  | Pa_CloseStream
  | Pa_OpenStream u32_t
  | Pa_SetStreamFinishedCallback
  | Pa_StartStream

text \<open>
  Modelled from the spec: the message queue of audio/mqueue.h, which is not part of the
  sources at hand, is a channel of a single slot. The queue is the list of the requests
  that are pending, oldest first. \<open>mqueue_write_request\<close> fails at once when a
  request is pending, \<open>mqueue_write_complete\<close> commits the request that was granted,
  and \<open>mqueue_read_complete\<close> frees the slot of the request that is being executed.
  A request names the handler to call: this file writes \<open>finished_handler\<close>, with no
  arguments; \<open>Other_request n\<close> is a request that another file of the decoder wrote
  to the same queue.
\<close>

datatype request = Finished_handler | Other_request nat

type_synonym mqueue = "request list"

definition mqueue_write_request :: "mqueue \<Rightarrow> bool" where
  "mqueue_write_request q = (q = [])"

definition mqueue_write_complete :: "mqueue \<Rightarrow> request \<Rightarrow> mqueue" where
  "mqueue_write_complete q r = q @ [r]"

definition mqueue_read_complete :: "mqueue \<Rightarrow> mqueue" where
  "mqueue_read_complete q = tl q"

text \<open>
  The globals: \<open>decode_audio\<close>, \<open>decode_fifo_buf\<close>, \<open>decode_mqueue\<close>, and the
  file's own \<open>stream\<close> (\<open>None\<close> is the null pointer) and \<open>stream_sample_rate\<close>.
\<close>

record world =
  audio :: decode_audio
  decode_fifo_buf :: "byte list"
  decode_mqueue :: mqueue
  stream :: "nat option"
  stream_sample_rate :: u32_t
  trace :: "event list"

definition emit :: "event \<Rightarrow> world \<Rightarrow> world" where
  "emit e w = w\<lparr>trace := trace w @ [e]\<rparr>"

datatype fault = Division_by_zero | Loop_forever

datatype pa_result = paContinue | paComplete | paAbort

subsection \<open>The render callback\<close>

text \<open>
  The two labels at the end of \<open>callback\<close>. \<open>unlock_mixin_effects\<close> releases the
  lock and falls through to \<open>mixin_effects\<close>, which calls the mixer over
  \<open>SAMPLES_TO_BYTES(framesPerBuffer)\<close> bytes and returns \<open>paContinue\<close>. The
  buffer returned is the output as it is handed to the mixer.
\<close>

definition mixin_effects ::
  "32 word \<Rightarrow> world \<Rightarrow> byte list \<Rightarrow> fault + (world \<times> byte list \<times> pa_result)" where
  "mixin_effects framesPerBuffer w out =
     Inr (emit (Sample_mix (unat (SAMPLES_TO_BYTES framesPerBuffer))) w, out, paContinue)"

definition unlock_mixin_effects ::
  "32 word \<Rightarrow> world \<Rightarrow> byte list \<Rightarrow> fault + (world \<times> byte list \<times> pa_result)" where
  "unlock_mixin_effects framesPerBuffer w out =
     mixin_effects framesPerBuffer (emit Audio_unlock w) out"

text \<open>
  Lines 66 to 73: the bytes of silence to insert, clamped to the length asked for, and
  the local \<open>add_silence_ms\<close> after the decrement. The product
  \<open>add_silence_ms * stream_sample_rate\<close> is unsigned 32-bit; the comparison with 2 is
  signed. The division by \<open>stream_sample_rate\<close> traps when the rate is 0.
\<close>

definition silence_bytes :: "u32_t \<Rightarrow> c_int \<Rightarrow> size_t \<Rightarrow> size_t" where
  "silence_bytes rate ms len =
     (let add_bytes = SAMPLES_TO_BYTES ((ms * rate) div 1000)
      in if add_bytes > len then len else add_bytes)"

definition silence_left :: "u32_t \<Rightarrow> c_int \<Rightarrow> size_t \<Rightarrow> fault + c_int" where
  "silence_left rate ms add_bytes =
     (if rate = 0 then Inl Division_by_zero
      else let ms' = ms - (BYTES_TO_SAMPLES add_bytes * 1000) div rate
           in Inr (if ms' <s 2 then 0 else ms'))"

text \<open>Lines 82 to 87: only skip if it will not cause an underrun.\<close>

definition skip_amount :: "size_t \<Rightarrow> size_t \<Rightarrow> size_t \<Rightarrow> size_t" where
  "skip_amount bytes_used len skip_ahead =
     (if bytes_used \<ge> len \<and> skip_ahead > 0
      then (let skip_bytes = bytes_used - len
            in if skip_bytes > skip_ahead then skip_ahead else skip_bytes)
      else 0)"

text \<open>Lines 109 to 126: advance the read index by the skip, in two parts at the wrap.\<close>

definition skip_ahead :: "decode_audio \<Rightarrow> size_t \<Rightarrow> decode_audio" where
  "skip_ahead a skip_bytes =
     (if skip_bytes \<noteq> 0 then
        let wrap = fifo_bytes_until_rptr_wrap (fifo a);
            a1 = (if wrap < skip_bytes
                  then a\<lparr>fifo := fifo_rptr_incby (fifo a) wrap,
                         skip_ahead_bytes := skip_ahead_bytes a - wrap,
                         elapsed_samples := elapsed_samples a + BYTES_TO_SAMPLES wrap\<rparr>
                  else a);
            skip_bytes1 = (if wrap < skip_bytes then skip_bytes - wrap else skip_bytes)
        in a1\<lparr>fifo := fifo_rptr_incby (fifo a1) skip_bytes1,
               skip_ahead_bytes := skip_ahead_bytes a1 - skip_bytes1,
               elapsed_samples := elapsed_samples a1 + BYTES_TO_SAMPLES skip_bytes1\<rparr>
      else a)"

text \<open>
  Lines 143 to 146: the inner loop over \<open>samples_write\<close> frames. \<open>dp\<close> is
  \<open>decode_ptr\<close>, an offset into \<open>decode_fifo_buf\<close>; \<open>op\<close> is \<open>output_ptr\<close>. The
  fixed-point product \<open>fixed_mul\<close> of audio/fixed\_math.h is a parameter.
\<close>

fun gain_loop ::
  "(sample_t \<Rightarrow> sample_t \<Rightarrow> sample_t) \<Rightarrow> sample_t \<Rightarrow> sample_t \<Rightarrow> byte list \<Rightarrow>
   nat \<Rightarrow> nat \<Rightarrow> nat \<Rightarrow> byte list \<Rightarrow> byte list" where
  "gain_loop fixed_mul lg rg buf 0 dp op out = out"
| "gain_loop fixed_mul lg rg buf (Suc n) dp op out =
     gain_loop fixed_mul lg rg buf n (dp + 8) (op + 8)
       (store32 (store32 out op (fixed_mul lg (load32 buf dp)))
          (op + 4) (fixed_mul rg (load32 buf (dp + 4))))"

text \<open>
  Lines 128 to 153: the copy loop. \<open>oa\<close> is \<open>outputArray\<close>, an offset into the output
  buffer. The loop does not return when an iteration writes 0 bytes and leaves the read
  index where it was (a ring buffer of capacity 0): the result is then \<open>None\<close>.
\<close>

partial_function (option) copy_loop ::
  "(sample_t \<Rightarrow> sample_t \<Rightarrow> sample_t) \<Rightarrow> byte list \<Rightarrow> decode_audio \<Rightarrow> byte list \<Rightarrow>
   nat \<Rightarrow> size_t \<Rightarrow> (decode_audio \<times> byte list) option" where
  "copy_loop fixed_mul buf a out oa bytes_used =
     (if bytes_used = 0 then Some (a, out)
      else
        let wrap = fifo_bytes_until_rptr_wrap (fifo a);
            bytes_write = (if wrap < bytes_used then wrap else bytes_used);
            samples_write = BYTES_TO_SAMPLES bytes_write;
            out' = gain_loop fixed_mul (lgain a) (rgain a) buf (unat samples_write)
                     (unat (rptr (fifo a))) oa out;
            a' = a\<lparr>fifo := fifo_rptr_incby (fifo a) bytes_write,
                   elapsed_samples := elapsed_samples a + BYTES_TO_SAMPLES bytes_write\<rparr>
        in copy_loop fixed_mul buf a' out' (oa + unat bytes_write) (bytes_used - bytes_write))"

declare copy_loop.simps [code]

text \<open>
  Lines 155 to 158. \<open>decode_check_start_point\<close> is declared outside this file; the spec
  has it as the predicate "reached track start point" on the shared state, and it is a
  parameter here.
\<close>

definition note_sample_rate ::
  "(decode_audio \<Rightarrow> bool) \<Rightarrow> u32_t \<Rightarrow> decode_audio \<Rightarrow> decode_audio" where
  "note_sample_rate decode_check_start_point rate a =
     (let reached_start_point = decode_check_start_point a
      in if reached_start_point \<and> track_sample_rate a \<noteq> rate
         then a\<lparr>set_sample_rate := track_sample_rate a\<rparr> else a)"

text \<open>
  Lines 79 to 161: the callback from the read of \<open>fifo_bytes_used\<close> on, with \<open>oa\<close>
  the output position and \<open>len\<close> the length that is left after the silence.
\<close>

definition render ::
  "(sample_t \<Rightarrow> sample_t \<Rightarrow> sample_t) \<Rightarrow> (decode_audio \<Rightarrow> bool) \<Rightarrow> 32 word \<Rightarrow>
   world \<Rightarrow> byte list \<Rightarrow> nat \<Rightarrow> size_t \<Rightarrow> fault + (world \<times> byte list \<times> pa_result)" where
  "render fixed_mul decode_check_start_point framesPerBuffer w out oa len =
     (let a = audio w;
          bytes_used0 = fifo_bytes_used (fifo a);
          skip_bytes = skip_amount bytes_used0 len (skip_ahead_bytes a);
          bytes_used = (if bytes_used0 > len then len else bytes_used0)
      in if bytes_used = 0 then
           unlock_mixin_effects framesPerBuffer
             (w\<lparr>audio := a\<lparr>state := state a OR DECODE_STATE_UNDERRUN\<rparr>\<rparr>)
             (memset0 out oa (unat len))
         else
           let a1 = (if bytes_used < len
                     then a\<lparr>state := state a OR DECODE_STATE_UNDERRUN\<rparr>
                     else a\<lparr>state := state a AND NOT DECODE_STATE_UNDERRUN\<rparr>);
               out1 = (if bytes_used < len
                       then memset0 out (oa + unat bytes_used) (unat (len - bytes_used))
                       else out);
               a2 = skip_ahead a1 skip_bytes
           in case copy_loop fixed_mul (decode_fifo_buf w) a2 out1 oa bytes_used of
                None \<Rightarrow> Inl Loop_forever
              | Some (a3, out3) \<Rightarrow>
                  unlock_mixin_effects framesPerBuffer
                    (w\<lparr>audio := note_sample_rate decode_check_start_point
                                   (stream_sample_rate w) a3\<rparr>)
                    out3)"

text \<open>
  The callback. \<open>outputBuffer\<close> is the content of the buffer PortAudio passes in; the
  input buffer, the time info, the status flags and the user data are not used (the
  status flags are logged only).
\<close>

definition callback ::
  "(sample_t \<Rightarrow> sample_t \<Rightarrow> sample_t) \<Rightarrow> (decode_audio \<Rightarrow> bool) \<Rightarrow>
   world \<Rightarrow> byte list \<Rightarrow> 32 word \<Rightarrow> fault + (world \<times> byte list \<times> pa_result)" where
  "callback fixed_mul decode_check_start_point w0 outputBuffer framesPerBuffer =
     (let len = SAMPLES_TO_BYTES framesPerBuffer;
          w = emit Audio_lock w0
      in if state (audio w) AND DECODE_STATE_RUNNING = 0 then
           mixin_effects framesPerBuffer w (memset0 outputBuffer 0 (unat len))
         else
           let add_silence_ms = add_silence_ms (audio w)
           in if add_silence_ms \<noteq> 0 then
                let add_bytes = silence_bytes (stream_sample_rate w) add_silence_ms len;
                    out = memset0 outputBuffer 0 (unat add_bytes);
                    len' = len - add_bytes
                in case silence_left (stream_sample_rate w) add_silence_ms add_bytes of
                     Inl e \<Rightarrow> Inl e
                   | Inr add_silence_ms' \<Rightarrow>
                       if len' = 0 then unlock_mixin_effects framesPerBuffer w out
                       else render fixed_mul decode_check_start_point framesPerBuffer
                              w out (unat add_bytes) len'
              else render fixed_mul decode_check_start_point framesPerBuffer
                     w outputBuffer 0 len)"

subsection \<open>The stream-finished notifier and the stream life cycle\<close>

text \<open>
  \<open>decode_portaudio_openstream\<close>. \<open>new_stream\<close> is what PortAudio leaves in
  \<open>stream\<close> after \<open>Pa_OpenStream\<close>. The error codes of the PortAudio calls are
  logged only, so they are not inputs.
\<close>

definition decode_portaudio_openstream :: "nat option \<Rightarrow> world \<Rightarrow> world" where
  "decode_portaudio_openstream new_stream w0 =
     (let w1 = (if stream w0 \<noteq> None then emit Pa_CloseStream w0 else w0);
          w2 = emit Audio_lock w1;
          set_sample_rate = set_sample_rate (audio w2);
          w3 = w2\<lparr>audio := (audio w2)\<lparr>set_sample_rate := 0\<rparr>\<rparr>;
          w4 = emit Audio_unlock w3;
          w5 = (emit (Pa_OpenStream set_sample_rate) w4)\<lparr>stream := new_stream\<rparr>;
          w6 = w5\<lparr>stream_sample_rate := set_sample_rate\<rparr>;
          w7 = emit Pa_SetStreamFinishedCallback w6
      in emit Pa_StartStream w7)"

definition finished_handler :: "nat option \<Rightarrow> world \<Rightarrow> world" where
  "finished_handler new_stream w =
     decode_portaudio_openstream new_stream
       (w\<lparr>decode_mqueue := mqueue_read_complete (decode_mqueue w)\<rparr>)"

definition finished :: "world \<Rightarrow> world" where
  "finished w =
     (if set_sample_rate (audio w) \<noteq> 0 then
        if mqueue_write_request (decode_mqueue w)
        then w\<lparr>decode_mqueue := mqueue_write_complete (decode_mqueue w) Finished_handler\<rparr>
        else w
      else w)"

definition decode_portaudio_start :: "nat option \<Rightarrow> world \<Rightarrow> world" where
  "decode_portaudio_start new_stream w = decode_portaudio_openstream new_stream w"

definition decode_portaudio_pause :: "world \<Rightarrow> world" where
  "decode_portaudio_pause w = w"

definition decode_portaudio_resume :: "world \<Rightarrow> world" where
  "decode_portaudio_resume w = w"

definition decode_portaudio_stop :: "nat option \<Rightarrow> world \<Rightarrow> world" where
  "decode_portaudio_stop new_stream w =
     decode_portaudio_openstream new_stream
       (w\<lparr>audio := (audio w)\<lparr>set_sample_rate := 44100\<rparr>\<rparr>)"

text \<open>
  Modelled from the spec: the worker's side of the channel, which is not part of the
  sources at hand: it takes the oldest pending request, if any, and executes it. The
  handlers of the requests that other files write are a parameter.
\<close>

definition worker_execute ::
  "(nat \<Rightarrow> world \<Rightarrow> world) \<Rightarrow> nat option \<Rightarrow> world \<Rightarrow> world" where
  "worker_execute other_handler new_stream w =
     (case decode_mqueue w of
        [] \<Rightarrow> w
      | Finished_handler # _ \<Rightarrow> finished_handler new_stream w
      | Other_request n # _ \<Rightarrow> other_handler n w)"

subsection \<open>Observations on a callback\<close>

text \<open>
  The invariants of the ring buffer that the decoder keeps: both indices lie below the
  capacity, and the indices, the capacity and the skip-ahead counter count whole frames
  (the decoder writes whole frames only).
\<close>

definition fifo_ok :: "fifo \<Rightarrow> bool" where
  "fifo_ok f = (rptr f < fifo_size f \<and> wptr f < fifo_size f)"

definition frame_aligned :: "decode_audio \<Rightarrow> bool" where
  "frame_aligned a =
     (8 dvd unat (rptr (fifo a)) \<and> 8 dvd unat (wptr (fifo a)) \<and>
      8 dvd unat (fifo_size (fifo a)) \<and> 8 dvd unat (skip_ahead_bytes a))"

text \<open>
  The values of the callback's locals at line 79, where the ring buffer is read:
  \<open>add_bytes\<close> and \<open>len\<close> (the length left after the silence); then
  \<open>skip_bytes\<close> after line 87 and \<open>bytes_used\<close> after the clamp of line 91.
\<close>

definition add_bytes_at :: "world \<Rightarrow> 32 word \<Rightarrow> size_t" where
  "add_bytes_at w framesPerBuffer =
     (if add_silence_ms (audio w) \<noteq> 0
      then silence_bytes (stream_sample_rate w) (add_silence_ms (audio w))
             (SAMPLES_TO_BYTES framesPerBuffer)
      else 0)"

definition len_at :: "world \<Rightarrow> 32 word \<Rightarrow> size_t" where
  "len_at w framesPerBuffer = SAMPLES_TO_BYTES framesPerBuffer - add_bytes_at w framesPerBuffer"

definition skip_bytes_at :: "world \<Rightarrow> 32 word \<Rightarrow> size_t" where
  "skip_bytes_at w framesPerBuffer =
     skip_amount (fifo_bytes_used (fifo (audio w))) (len_at w framesPerBuffer)
       (skip_ahead_bytes (audio w))"

definition bytes_used_at :: "world \<Rightarrow> 32 word \<Rightarrow> size_t" where
  "bytes_used_at w framesPerBuffer =
     (if fifo_bytes_used (fifo (audio w)) > len_at w framesPerBuffer
      then len_at w framesPerBuffer else fifo_bytes_used (fifo (audio w)))"

text \<open>
  \<open>gained_frame fixed_mul a buf p out q\<close>: the frame at byte \<open>q\<close> of \<open>out\<close> is
  the frame that lies \<open>p\<close> bytes after the read index of the ring buffer (modulo its
  capacity), left sample times left gain and right sample times right gain.
\<close>

definition gained_frame ::
  "(sample_t \<Rightarrow> sample_t \<Rightarrow> sample_t) \<Rightarrow> decode_audio \<Rightarrow> byte list \<Rightarrow> nat \<Rightarrow>
   byte list \<Rightarrow> nat \<Rightarrow> bool" where
  "gained_frame fixed_mul a buf p out q =
     (load32 out q =
        fixed_mul (lgain a)
          (load32 buf ((unat (rptr (fifo a)) + p) mod unat (fifo_size (fifo a)))) \<and>
      load32 out (q + 4) =
        fixed_mul (rgain a)
          (load32 buf ((unat (rptr (fifo a)) + p + 4) mod unat (fifo_size (fifo a)))))"

subsection \<open>Concrete inputs\<close>

text \<open>
  A 16.16 fixed-point product for \<open>fixed_mul\<close>, and a small state to run the
  functions on: a ring buffer of 16 bytes holding one frame at the read index, the
  stream open at 44100 Hz, left gain 1.0 and right gain 2.0.
\<close>

definition fixed_mul_16_16 :: "sample_t \<Rightarrow> sample_t \<Rightarrow> sample_t" where
  "fixed_mul_16_16 x y = word_of_int ((sint x * sint y) div 65536)"

definition audio_ex :: decode_audio where
  "audio_ex =
     \<lparr>fifo = \<lparr>rptr = 8, wptr = 0, fifo_size = 16\<rparr>, state = 1,
      lgain = 0x10000, rgain = 0x20000, add_silence_ms = 0, skip_ahead_bytes = 0,
      elapsed_samples = 5, track_sample_rate = 48000, set_sample_rate = 0,
      max_rate = 48000\<rparr>"

definition world_ex :: world where
  "world_ex =
     \<lparr>audio = audio_ex,
      decode_fifo_buf = [1, 0, 0, 0, 2, 0, 0, 0, 3, 0, 0, 0, 4, 0, 0, 0],
      decode_mqueue = [], stream = Some 1, stream_sample_rate = 44100, trace = []\<rparr>"

text \<open>
  A second state, for the skip: a ring buffer of 32 bytes with the read index at 24 and
  the write index at 16 (24 bytes buffered, wrapping at the end), and 16 bytes to skip.
\<close>

definition audio_ex2 :: decode_audio where
  "audio_ex2 = audio_ex\<lparr>fifo := \<lparr>rptr = 24, wptr = 16, fifo_size = 32\<rparr>, skip_ahead_bytes := 16\<rparr>"

definition world_ex2 :: world where
  "world_ex2 =
     world_ex\<lparr>audio := audio_ex2,
              decode_fifo_buf := [1, 0, 0, 0, 2, 0, 0, 0, 3, 0, 0, 0, 4, 0, 0, 0,
                                  5, 0, 0, 0, 6, 0, 0, 0, 7, 0, 0, 0, 8, 0, 0, 0]\<rparr>"

section \<open>Properties\<close>

subsection \<open>Helper facts\<close>

lemma memset0_all: "length m \<le> n \<Longrightarrow> memset0 m 0 n = replicate (length m) 0"
  by (auto simp: memset0_def intro!: nth_equalityI)

lemma unat_SAMPLES_TO_BYTES:
  "8 * unat n < 2 ^ 32 \<Longrightarrow> unat (SAMPLES_TO_BYTES n) = 8 * unat n"
  by (simp add: SAMPLES_TO_BYTES_def unat_word_ariths)

subsubsection \<open>Memory and the inner loop\<close>

lemma bytes_sample_sample_bytes:
  "bytes_sample (ucast v) (ucast (drop_bit 8 v)) (ucast (drop_bit 16 v)) (ucast (drop_bit 24 v)) = v"
  unfolding bytes_sample_def
  apply (rule bit_word_eqI)
  subgoal for n
    by (cases "n < 8"; cases "n < 16"; cases "n < 24") (auto simp add: bit_simps)
  done

lemma length_store32 [simp]: "length (store32 m p v) = length m"
  by (simp add: store32_def Let_def)

lemma length_memset0 [simp]: "length (memset0 m p n) = length m"
  by (simp add: memset0_def)

lemma nth_memset0:
  "i < length m \<Longrightarrow> memset0 m p n ! i = (if p \<le> i \<and> i < p + n then 0 else m ! i)"
  by (simp add: memset0_def)

lemma nth_store32_outside:
  "i < p \<or> p + 4 \<le> i \<Longrightarrow> store32 m p v ! i = m ! i"
  by (auto simp add: store32_def Let_def)

lemma load32_store32_same:
  "p + 4 \<le> length m \<Longrightarrow> load32 (store32 m p v) p = v"
  by (simp add: load32_def store32_def Let_def sample_bytes_def bytes_sample_sample_bytes)

lemma load32_cong:
  "(\<And>j. j < 4 \<Longrightarrow> m1 ! (p + j) = m2 ! (p + j)) \<Longrightarrow> load32 m1 p = load32 m2 p"
proof -
  assume h: "\<And>j. j < 4 \<Longrightarrow> m1 ! (p + j) = m2 ! (p + j)"
  have "m1 ! (p + 0) = m2 ! (p + 0)" "m1 ! (p + 1) = m2 ! (p + 1)"
    "m1 ! (p + 2) = m2 ! (p + 2)" "m1 ! (p + 3) = m2 ! (p + 3)"
    by (rule h, simp)+
  then show ?thesis by (simp add: load32_def)
qed

lemma load32_store32_other:
  "p + 4 \<le> q \<or> q + 4 \<le> p \<Longrightarrow> load32 (store32 m q v) p = load32 m p"
  by (rule load32_cong) (auto simp: nth_store32_outside)

lemma length_gain_loop [simp]:
  "length (gain_loop fm lg rg buf n dp op out) = length out"
  by (induction n arbitrary: dp op out) simp_all

lemma nth_gain_loop_outside:
  "i < op \<or> op + 8 * n \<le> i \<Longrightarrow> gain_loop fm lg rg buf n dp op out ! i = out ! i"
proof (induction n arbitrary: dp op out)
  case 0
  then show ?case by simp
next
  case (Suc n)
  have "i < op + 8 \<or> op + 8 + 8 * n \<le> i"
    using Suc.prems by auto
  then have "gain_loop fm lg rg buf (Suc n) dp op out ! i =
        store32 (store32 out op (fm lg (load32 buf dp))) (op + 4) (fm rg (load32 buf (dp + 4))) ! i"
    by (simp add: Suc.IH)
  also have "\<dots> = out ! i"
    using Suc.prems by (auto simp: nth_store32_outside)
  finally show ?case .
qed

lemma load32_gain_loop_outside:
  "p + 4 \<le> op \<or> op + 8 * n \<le> p \<Longrightarrow>
   load32 (gain_loop fm lg rg buf n dp op out) p = load32 out p"
  by (rule load32_cong) (auto simp: nth_gain_loop_outside)

lemma gain_loop_frames:
  "op + 8 * n \<le> length out \<Longrightarrow> k < n \<Longrightarrow>
   load32 (gain_loop fm lg rg buf n dp op out) (op + 8 * k) = fm lg (load32 buf (dp + 8 * k)) \<and>
   load32 (gain_loop fm lg rg buf n dp op out) (op + 8 * k + 4) =
     fm rg (load32 buf (dp + 8 * k + 4))"
proof (induction n arbitrary: dp op out k)
  case 0
  then show ?case by simp
next
  case (Suc n)
  let ?o1 = "store32 (store32 out op (fm lg (load32 buf dp))) (op + 4) (fm rg (load32 buf (dp + 4)))"
  show ?case
  proof (cases k)
    case 0
    have "load32 ?o1 op = fm lg (load32 buf dp)"
      using Suc.prems by (simp add: load32_store32_other load32_store32_same)
    moreover have "load32 ?o1 (op + 4) = fm rg (load32 buf (dp + 4))"
      using Suc.prems by (simp add: load32_store32_same)
    ultimately show ?thesis
      using 0 by (simp add: load32_gain_loop_outside)
  next
    case (Suc k')
    have a: "op + 8 + 8 * n \<le> length ?o1" and b: "k' < n"
      using Suc.prems Suc by simp_all
    have "load32 (gain_loop fm lg rg buf n (dp + 8) (op + 8) ?o1) (op + 8 + 8 * k') =
            fm lg (load32 buf (dp + 8 + 8 * k')) \<and>
          load32 (gain_loop fm lg rg buf n (dp + 8) (op + 8) ?o1) (op + 8 + 8 * k' + 4) =
            fm rg (load32 buf (dp + 8 + 8 * k' + 4))"
      by (rule Suc.IH [OF a b])
    then show ?thesis
      using Suc by (simp add: add.assoc)
  qed
qed

subsubsection \<open>Ring buffer arithmetic\<close>

lemma unat_BYTES_TO_SAMPLES: "unat (BYTES_TO_SAMPLES x) = unat x div 8"
  by (simp add: BYTES_TO_SAMPLES_def unat_div)

lemma BYTES_TO_SAMPLES_0 [simp]: "BYTES_TO_SAMPLES 0 = 0"
  by (simp add: BYTES_TO_SAMPLES_def)

lemma BYTES_TO_SAMPLES_split:
  assumes "x \<le> y" and "8 dvd unat x"
  shows "BYTES_TO_SAMPLES x + BYTES_TO_SAMPLES (y - x) = BYTES_TO_SAMPLES y"
proof -
  have le: "unat x \<le> unat y" using assms(1) by (simp add: word_le_nat_alt)
  then have sub: "unat (y - x) = unat y - unat x" using assms(1) by (simp add: unat_sub)
  obtain c where c: "unat x = 8 * c" using assms(2) by (auto elim: dvdE)
  have "unat x div 8 + (unat y - unat x) div 8 = unat y div 8"
    using le c by (simp add: div_mult_self2 [symmetric] del: div_mult_self2) 
  moreover have "unat y div 8 < 2 ^ 32"
    using unsigned_less [of y, where 'a = nat] by (simp add: div_le_dividend less_imp_diff_less)
  ultimately show ?thesis
    by (simp add: word_unat_eq_iff unat_word_ariths unat_BYTES_TO_SAMPLES sub)
qed

lemma unat_wrap:
  "rptr f \<le> fifo_size f \<Longrightarrow>
   unat (fifo_bytes_until_rptr_wrap f) = unat (fifo_size f) - unat (rptr f)"
  by (simp add: fifo_bytes_until_rptr_wrap_def unat_sub)

lemma unat_rptr_incby:
  assumes "unat (rptr f) + unat n \<le> unat (fifo_size f)"
  shows "unat (rptr (fifo_rptr_incby f n)) = (unat (rptr f) + unat n) mod unat (fifo_size f)"
proof -
  have "unat (fifo_size f) < 2 ^ 32"
    using unsigned_less [of "fifo_size f", where 'a = nat] by simp
  then have "unat (rptr f + n) = unat (rptr f) + unat n"
    using assms by (simp add: unat_add_lem [THEN iffD1])
  then show ?thesis
    by (simp add: fifo_rptr_incby_def unat_mod)
qed

lemma unat_fifo_bytes_used:
  assumes "fifo_ok f"
  shows "unat (fifo_bytes_used f) =
           (if unat (rptr f) \<le> unat (wptr f) then unat (wptr f) - unat (rptr f)
            else unat (fifo_size f) - unat (rptr f) + unat (wptr f))"
proof -
  have r: "unat (rptr f) < unat (fifo_size f)" and w: "unat (wptr f) < unat (fifo_size f)"
    using assms by (simp_all add: fifo_ok_def word_less_nat_alt)
  have s: "unat (fifo_size f) < 2 ^ 32"
    using unsigned_less [of "fifo_size f", where 'a = nat] by simp
  show ?thesis
  proof (cases "rptr f \<le> wptr f")
    case True
    then show ?thesis
      by (simp add: fifo_bytes_used_def unat_sub word_le_nat_alt)
  next
    case False
    then have lt: "unat (wptr f) < unat (rptr f)"
      by (simp add: word_le_nat_alt)
    have le: "rptr f \<le> fifo_size f"
      using r by (simp add: word_le_nat_alt)
    have d: "unat (fifo_size f - rptr f) = unat (fifo_size f) - unat (rptr f)"
      using le by (simp add: unat_sub)
    have "unat (fifo_size f - rptr f) + unat (wptr f) < 2 ^ 32"
      using d r lt s by simp
    then have "unat (fifo_size f - rptr f + wptr f) = unat (fifo_size f - rptr f) + unat (wptr f)"
      by (simp add: unat_add_lem [THEN iffD1])
    then show ?thesis
      using False lt d by (simp add: fifo_bytes_used_def)
  qed
qed

lemma fifo_bytes_used_less:
  "fifo_ok f \<Longrightarrow> unat (fifo_bytes_used f) < unat (fifo_size f)"
  by (auto simp: unat_fifo_bytes_used fifo_ok_def word_less_nat_alt)

lemma fifo_bytes_used_aligned:
  assumes "fifo_ok f" "8 dvd unat (rptr f)" "8 dvd unat (wptr f)" "8 dvd unat (fifo_size f)"
  shows "8 dvd unat (fifo_bytes_used f)"
  using assms by (simp add: unat_fifo_bytes_used dvd_diff_nat)

lemma unat_skip_amount:
  "unat (skip_amount bu len sa) =
     (if unat len \<le> unat bu \<and> 0 < unat sa then min (unat sa) (unat bu - unat len) else 0)"
  by (auto simp: skip_amount_def Let_def word_le_nat_alt word_less_nat_alt unat_sub unat_gt_0)

lemma skip_amount_le: "skip_amount bu len sa \<le> sa"
  by (simp add: word_le_nat_alt unat_skip_amount)

subsubsection \<open>The copy loop and the skip\<close>

lemma copy_loop_correct:
  assumes "unat (rptr (fifo a)) < unat (fifo_size (fifo a))"
    and "8 dvd unat (fifo_size (fifo a))"
    and "8 dvd unat (rptr (fifo a)) \<or>
         unat (rptr (fifo a)) + unat bu \<le> unat (fifo_size (fifo a))"
    and "oa + unat bu \<le> length out"
  shows "\<exists>out'. copy_loop fm buf a out oa bu =
            Some (a\<lparr>fifo := (fifo a)\<lparr>rptr :=
                      of_nat ((unat (rptr (fifo a)) + unat bu) mod unat (fifo_size (fifo a)))\<rparr>,
                    elapsed_samples := elapsed_samples a + BYTES_TO_SAMPLES bu\<rparr>, out') \<and>
          length out' = length out \<and>
          (\<forall>i. i < oa \<or> oa + unat bu \<le> i \<longrightarrow> out' ! i = out ! i) \<and>
          (\<forall>k. 8 * k + 8 \<le> unat bu \<longrightarrow>
             load32 out' (oa + 8 * k) =
               fm (lgain a) (load32 buf ((unat (rptr (fifo a)) + 8 * k)
                                          mod unat (fifo_size (fifo a)))) \<and>
             load32 out' (oa + 8 * k + 4) =
               fm (rgain a) (load32 buf ((unat (rptr (fifo a)) + 8 * k + 4)
                                          mod unat (fifo_size (fifo a)))))"
  using assms
proof (induction "unat bu" arbitrary: a out oa bu rule: less_induct)
  case less
  define r where "r = unat (rptr (fifo a))"
  define s where "s = unat (fifo_size (fifo a))"
  have r_lt: "r < s" and s8: "8 dvd s"
    and al: "8 dvd r \<or> r + unat bu \<le> s" and fits: "oa + unat bu \<le> length out"
    using less.prems by (simp_all add: r_def s_def)
  show ?case
  proof (cases "bu = 0")
    case True
    have "of_nat (r mod s) = rptr (fifo a)"
      using r_lt by (simp add: r_def)
    then show ?thesis
      unfolding r_def [symmetric] s_def [symmetric]
      by (subst copy_loop.simps) (simp add: True)
  next
    case False
    define wrap where "wrap = fifo_bytes_until_rptr_wrap (fifo a)"
    define bw where "bw = (if wrap < bu then wrap else bu)"
    define out1 where
      "out1 = gain_loop fm (lgain a) (rgain a) buf (unat (BYTES_TO_SAMPLES bw)) r oa out"
    define a1 where
      "a1 = a\<lparr>fifo := fifo_rptr_incby (fifo a) bw,
               elapsed_samples := elapsed_samples a + BYTES_TO_SAMPLES bw\<rparr>"
    have step: "copy_loop fm buf a out oa bu =
                copy_loop fm buf a1 out1 (oa + unat bw) (bu - bw)"
      by (subst copy_loop.simps)
        (simp add: False Let_def wrap_def bw_def out1_def a1_def r_def)
    have le_size: "rptr (fifo a) \<le> fifo_size (fifo a)"
      using r_lt by (simp add: word_le_nat_alt r_def s_def)
    have uw: "unat wrap = s - r"
      using le_size by (simp add: wrap_def unat_wrap r_def s_def)
    have ubu: "0 < unat bu"
      using False by (simp add: unat_gt_0)
    have ubw: "unat bw = min (s - r) (unat bu)"
      using uw by (auto simp: bw_def word_less_nat_alt)
    have bw_pos: "0 < unat bw"
      using ubw ubu r_lt by simp
    have bw_le: "bw \<le> bu"
      using ubw by (simp add: word_le_nat_alt)
    have usub: "unat (bu - bw) = unat bu - unat bw"
      using bw_le by (simp add: unat_sub)
    have r1: "unat (rptr (fifo a1)) = (r + unat bw) mod s"
      using ubw r_lt by (simp add: a1_def unat_rptr_incby r_def s_def)
    have s1: "unat (fifo_size (fifo a1)) = s"
      by (simp add: a1_def fifo_rptr_incby_def s_def)
    have dv: "8 dvd unat bw" if "unat bw < unat bu"
    proof -
      from that ubw have eq: "unat bw = s - r" and "s - r < unat bu" by auto
      with al r_lt have "8 dvd r" by auto
      with s8 eq show ?thesis by (simp add: dvd_diff_nat)
    qed
    have r1_val: "(r + unat bw) mod s = (if unat bw < unat bu then 0 else (r + unat bu) mod s)"
      using ubw r_lt by (auto simp: min_def)
    have ih: "\<exists>out'. copy_loop fm buf a1 out1 (oa + unat bw) (bu - bw) =
            Some (a1\<lparr>fifo := (fifo a1)\<lparr>rptr :=
                      of_nat ((unat (rptr (fifo a1)) + unat (bu - bw))
                              mod unat (fifo_size (fifo a1)))\<rparr>,
                    elapsed_samples := elapsed_samples a1 + BYTES_TO_SAMPLES (bu - bw)\<rparr>, out') \<and>
          length out' = length out1 \<and>
          (\<forall>i. i < oa + unat bw \<or> oa + unat bw + unat (bu - bw) \<le> i \<longrightarrow> out' ! i = out1 ! i) \<and>
          (\<forall>k. 8 * k + 8 \<le> unat (bu - bw) \<longrightarrow>
             load32 out' (oa + unat bw + 8 * k) =
               fm (lgain a1) (load32 buf ((unat (rptr (fifo a1)) + 8 * k)
                                          mod unat (fifo_size (fifo a1)))) \<and>
             load32 out' (oa + unat bw + 8 * k + 4) =
               fm (rgain a1) (load32 buf ((unat (rptr (fifo a1)) + 8 * k + 4)
                                          mod unat (fifo_size (fifo a1)))))"
    proof (rule less.hyps)
      show "unat (bu - bw) < unat bu"
        using usub bw_pos ubu by simp
      show "unat (rptr (fifo a1)) < unat (fifo_size (fifo a1))"
        using r1 s1 r_lt by simp
      show "8 dvd unat (fifo_size (fifo a1))"
        using s1 s8 by simp
      show "8 dvd unat (rptr (fifo a1)) \<or>
            unat (rptr (fifo a1)) + unat (bu - bw) \<le> unat (fifo_size (fifo a1))"
        using r1 s1 r1_val usub r_lt by (auto simp: less_imp_le)
      show "oa + unat bw + unat (bu - bw) \<le> length out1"
        using usub ubw fits by (simp add: out1_def)
    qed
    then obtain out' where
      res: "copy_loop fm buf a1 out1 (oa + unat bw) (bu - bw) =
            Some (a1\<lparr>fifo := (fifo a1)\<lparr>rptr :=
                      of_nat ((unat (rptr (fifo a1)) + unat (bu - bw))
                              mod unat (fifo_size (fifo a1)))\<rparr>,
                    elapsed_samples := elapsed_samples a1 + BYTES_TO_SAMPLES (bu - bw)\<rparr>, out')"
      and len: "length out' = length out1"
      and outside: "\<And>i. i < oa + unat bw \<or> oa + unat bw + unat (bu - bw) \<le> i \<Longrightarrow>
                      out' ! i = out1 ! i"
      and frames: "\<And>k. 8 * k + 8 \<le> unat (bu - bw) \<Longrightarrow>
             load32 out' (oa + unat bw + 8 * k) =
               fm (lgain a1) (load32 buf ((unat (rptr (fifo a1)) + 8 * k)
                                          mod unat (fifo_size (fifo a1)))) \<and>
             load32 out' (oa + unat bw + 8 * k + 4) =
               fm (rgain a1) (load32 buf ((unat (rptr (fifo a1)) + 8 * k + 4)
                                          mod unat (fifo_size (fifo a1))))"
      by blast
    have idx: "((r + unat bw) mod s + (unat bu - unat bw)) mod s = (r + unat bu) mod s"
    proof -
      have "((r + unat bw) mod s + (unat bu - unat bw)) mod s =
            (r + unat bw + (unat bu - unat bw)) mod s"
        by (simp add: mod_add_left_eq)
      also have "r + unat bw + (unat bu - unat bw) = r + unat bu"
        using ubw by simp
      finally show ?thesis .
    qed
    have el: "BYTES_TO_SAMPLES bw + BYTES_TO_SAMPLES (bu - bw) = BYTES_TO_SAMPLES bu"
    proof (cases "unat bw < unat bu")
      case True
      then show ?thesis using dv bw_le by (simp add: BYTES_TO_SAMPLES_split)
    next
      case False
      with ubw have "unat bw = unat bu" by simp
      then have "bw = bu" by (simp add: word_unat_eq_iff)
      then show ?thesis by simp
    qed
    have state_eq:
      "a1\<lparr>fifo := (fifo a1)\<lparr>rptr :=
                      of_nat ((unat (rptr (fifo a1)) + unat (bu - bw))
                              mod unat (fifo_size (fifo a1)))\<rparr>,
          elapsed_samples := elapsed_samples a1 + BYTES_TO_SAMPLES (bu - bw)\<rparr> =
       a\<lparr>fifo := (fifo a)\<lparr>rptr := of_nat ((r + unat bu) mod s)\<rparr>,
         elapsed_samples := elapsed_samples a + BYTES_TO_SAMPLES bu\<rparr>"
      unfolding r1 s1 usub idx
      by (simp add: a1_def fifo_rptr_incby_def add.assoc el)
    have n8: "8 * (unat bw div 8) \<le> unat bw"
      by simp
    have out_outside: "out' ! i = out ! i" if "i < oa \<or> oa + unat bu \<le> i" for i
    proof -
      have "out' ! i = out1 ! i"
        using that usub ubw by (intro outside) auto
      also have "out1 ! i = out ! i"
        unfolding out1_def using that ubw n8
        by (intro nth_gain_loop_outside) (auto simp: unat_BYTES_TO_SAMPLES)
      finally show ?thesis .
    qed
    have out_frames:
      "load32 out' (oa + 8 * k) = fm (lgain a) (load32 buf ((r + 8 * k) mod s)) \<and>
       load32 out' (oa + 8 * k + 4) = fm (rgain a) (load32 buf ((r + 8 * k + 4) mod s))"
      if k: "8 * k + 8 \<le> unat bu" for k
    proof (cases "8 * k + 8 \<le> unat bw")
      case True
      then have kn: "k < unat (BYTES_TO_SAMPLES bw)"
        by (simp add: unat_BYTES_TO_SAMPLES)
      have fit1: "oa + 8 * unat (BYTES_TO_SAMPLES bw) \<le> length out"
        using n8 ubw fits by (simp add: unat_BYTES_TO_SAMPLES)
      have g: "load32 out1 (oa + 8 * k) = fm (lgain a) (load32 buf (r + 8 * k)) \<and>
               load32 out1 (oa + 8 * k + 4) = fm (rgain a) (load32 buf (r + 8 * k + 4))"
        unfolding out1_def by (rule gain_loop_frames [OF fit1 kn])
      have "load32 out' (oa + 8 * k) = load32 out1 (oa + 8 * k)"
        using True by (intro load32_cong outside) simp
      moreover have "load32 out' (oa + 8 * k + 4) = load32 out1 (oa + 8 * k + 4)"
        using True by (intro load32_cong outside) simp
      moreover have "r + 8 * k + 8 \<le> s"
        using True ubw r_lt by arith
      then have "(r + 8 * k) mod s = r + 8 * k" "(r + 8 * k + 4) mod s = r + 8 * k + 4"
        by simp_all
      ultimately show ?thesis using g by simp
    next
      case False
      with k have lt: "unat bw < unat bu" by simp
      from dv [OF lt] obtain c where c: "unat bw = 8 * c" by (auto elim: dvdE)
      with False have ck: "c \<le> k" by simp
      have bw_eq: "unat bw = s - r"
        using lt ubw by auto
      have k': "8 * (k - c) + 8 \<le> unat (bu - bw)"
        using k c ck usub by simp
      have pos: "oa + unat bw + 8 * (k - c) = oa + 8 * k"
        using c ck by simp
      have src1: "r + unat bw + 8 * (k - c) = r + 8 * k"
        using c ck by simp
      have "((r + unat bw) mod s + 8 * (k - c)) mod s = (r + unat bw + 8 * (k - c)) mod s"
        by (simp add: mod_add_left_eq)
      then have eq0: "(unat (rptr (fifo a1)) + 8 * (k - c)) mod unat (fifo_size (fifo a1)) =
                      (r + 8 * k) mod s"
        unfolding r1 s1 src1 .
      have "((r + unat bw) mod s + 8 * (k - c) + 4) mod s =
            (r + unat bw + 8 * (k - c) + 4) mod s"
        by (simp add: mod_add_left_eq add.assoc)
      then have eq4: "(unat (rptr (fifo a1)) + 8 * (k - c) + 4) mod unat (fifo_size (fifo a1)) =
                      (r + 8 * k + 4) mod s"
        unfolding r1 s1 src1 .
      from frames [OF k'] show ?thesis
        unfolding pos eq0 eq4 by (simp add: a1_def)
    qed
    show ?thesis
      unfolding r_def [symmetric] s_def [symmetric] step res state_eq
      using len out_outside out_frames by (simp add: out1_def)
  qed
qed

lemma word_eq_of_nat: "unat (x :: 32 word) = n \<Longrightarrow> x = of_nat n"
  by auto

lemma skip_ahead_correct:
  assumes r_lt: "unat (rptr (fifo a)) < unat (fifo_size (fifo a))"
    and s8: "8 dvd unat (fifo_size (fifo a))"
    and al: "8 dvd unat (rptr (fifo a))"
    and le: "unat sb \<le> unat (fifo_size (fifo a))"
  shows "skip_ahead a sb =
           a\<lparr>fifo := (fifo a)\<lparr>rptr :=
                 of_nat ((unat (rptr (fifo a)) + unat sb) mod unat (fifo_size (fifo a)))\<rparr>,
             skip_ahead_bytes := skip_ahead_bytes a - sb,
             elapsed_samples := elapsed_samples a + BYTES_TO_SAMPLES sb\<rparr>"
proof -
  define r where "r = unat (rptr (fifo a))"
  define s where "s = unat (fifo_size (fifo a))"
  define wrap where "wrap = fifo_bytes_until_rptr_wrap (fifo a)"
  have le_size: "rptr (fifo a) \<le> fifo_size (fifo a)"
    using r_lt by (simp add: word_le_nat_alt)
  have uw: "unat wrap = s - r"
    using le_size by (simp add: wrap_def unat_wrap r_def s_def)
  have rr: "of_nat r = rptr (fifo a)" by (simp add: r_def)
  show ?thesis
  proof (cases "sb = 0")
    case True
    then show ?thesis
      using r_lt by (simp add: skip_ahead_def)
  next
    case nz: False
    show ?thesis
    proof (cases "wrap < sb")
      case True
      then have lt: "s - r < unat sb" using uw by (simp add: word_less_nat_alt)
      have wle: "wrap \<le> sb" using True by simp
      have usub: "unat (sb - wrap) = unat sb - (s - r)"
        using wle uw by (simp add: unat_sub)
      have dvw: "8 dvd unat wrap"
        using uw s8 al by (simp add: dvd_diff_nat r_def s_def)
      define f1 where "f1 = fifo_rptr_incby (fifo a) wrap"
      have r1: "unat (rptr f1) = 0"
        using uw r_lt unat_rptr_incby [of "fifo a" wrap]
        by (simp add: f1_def r_def s_def)
      have s1: "fifo_size f1 = fifo_size (fifo a)"
        by (simp add: f1_def fifo_rptr_incby_def)
      have r2: "unat (rptr (fifo_rptr_incby f1 (sb - wrap))) = (unat sb - (s - r)) mod s"
        using unat_rptr_incby [of f1 "sb - wrap"] r1 s1 usub le
        by (simp add: s_def)
      have "(unat sb - (s - r)) mod s = (r + unat sb) mod s"
      proof -
        have "r + unat sb = (unat sb - (s - r)) + s"
          using lt r_lt by (simp add: r_def s_def)
        then have "(r + unat sb) mod s = ((unat sb - (s - r)) + s) mod s"
          by (simp only:)
        also have "\<dots> = (unat sb - (s - r)) mod s"
          by (rule mod_add_self2)
        finally show ?thesis by (rule sym)
      qed
      with r2 have "unat (rptr (fifo_rptr_incby f1 (sb - wrap))) = (r + unat sb) mod s"
        by simp
      then have r2': "rptr (fifo_rptr_incby f1 (sb - wrap)) = of_nat ((r + unat sb) mod s)"
        by (rule word_eq_of_nat)
      have f2: "fifo_rptr_incby f1 (sb - wrap) = (fifo a)\<lparr>rptr := of_nat ((r + unat sb) mod s)\<rparr>"
        using r2' by (simp add: fifo_rptr_incby_def f1_def)
      have el: "BYTES_TO_SAMPLES wrap + BYTES_TO_SAMPLES (sb - wrap) = BYTES_TO_SAMPLES sb"
        using wle dvw by (rule BYTES_TO_SAMPLES_split)
      show ?thesis
        unfolding r_def [symmetric] s_def [symmetric]
        using True nz f2 el
        by (simp add: skip_ahead_def Let_def wrap_def [symmetric] f1_def [symmetric]
            add.assoc diff_diff_eq)
    next
      case False
      then have ge: "unat sb \<le> s - r" using uw by (simp add: word_less_nat_alt)
      have "unat (rptr (fifo_rptr_incby (fifo a) sb)) = (r + unat sb) mod s"
        using unat_rptr_incby [of "fifo a" sb] ge r_lt by (simp add: r_def s_def)
      then have "rptr (fifo_rptr_incby (fifo a) sb) = of_nat ((r + unat sb) mod s)"
        by (rule word_eq_of_nat)
      then have f2: "fifo_rptr_incby (fifo a) sb = (fifo a)\<lparr>rptr := of_nat ((r + unat sb) mod s)\<rparr>"
        by (simp add: fifo_rptr_incby_def)
      show ?thesis
        unfolding r_def [symmetric] s_def [symmetric]
        using False nz f2
        by (simp add: skip_ahead_def Let_def wrap_def [symmetric])
    qed
  qed
qed

subsubsection \<open>The callback as a whole\<close>

lemma unat_of_nat_less:
  "n < unat (y :: 32 word) \<Longrightarrow> unat (of_nat n :: 32 word) = n"
proof -
  assume "n < unat y"
  moreover have "unat y < 2 ^ 32"
    using unsigned_less [of y, where 'a = nat] by simp
  ultimately show ?thesis by (simp add: unat_of_nat)
qed

lemma render_empty:
  assumes "(if len < fifo_bytes_used (fifo (audio w)) then len
            else fifo_bytes_used (fifo (audio w))) = 0"
  shows "render fm chk F w out oa len =
           Inr (w\<lparr>audio := (audio w)\<lparr>state := state (audio w) OR DECODE_STATE_UNDERRUN\<rparr>,
                  trace := trace w @ [Audio_unlock, Sample_mix (unat (SAMPLES_TO_BYTES F))]\<rparr>,
                memset0 out oa (unat len), paContinue)"
  using assms
  by (simp add: render_def Let_def unlock_mixin_effects_def mixin_effects_def emit_def)

lemma render_copy:
  assumes ok: "fifo_ok (fifo (audio w))"
    and al: "frame_aligned (audio w)"
    and l8: "8 dvd unat len"
    and fits: "oa + unat len \<le> length out"
    and nz: "(if len < fifo_bytes_used (fifo (audio w)) then len
              else fifo_bytes_used (fifo (audio w))) \<noteq> 0"
  shows "\<exists>out'. render fm chk F w out oa len =
           Inr (w\<lparr>audio := note_sample_rate chk (stream_sample_rate w)
                    ((audio w)\<lparr>fifo := (fifo (audio w))\<lparr>rptr :=
                         of_nat ((unat (rptr (fifo (audio w))) +
                                  unat (skip_amount (fifo_bytes_used (fifo (audio w))) len
                                          (skip_ahead_bytes (audio w))) +
                                  unat (if len < fifo_bytes_used (fifo (audio w)) then len
                                        else fifo_bytes_used (fifo (audio w))))
                                 mod unat (fifo_size (fifo (audio w))))\<rparr>,
                      state := (if fifo_bytes_used (fifo (audio w)) < len
                                then state (audio w) OR DECODE_STATE_UNDERRUN
                                else state (audio w) AND NOT DECODE_STATE_UNDERRUN),
                      skip_ahead_bytes := skip_ahead_bytes (audio w) -
                         skip_amount (fifo_bytes_used (fifo (audio w))) len
                           (skip_ahead_bytes (audio w)),
                      elapsed_samples := elapsed_samples (audio w) +
                         BYTES_TO_SAMPLES (skip_amount (fifo_bytes_used (fifo (audio w))) len
                                            (skip_ahead_bytes (audio w))) +
                         BYTES_TO_SAMPLES (if len < fifo_bytes_used (fifo (audio w)) then len
                                           else fifo_bytes_used (fifo (audio w)))\<rparr>),
                  trace := trace w @ [Audio_unlock, Sample_mix (unat (SAMPLES_TO_BYTES F))]\<rparr>,
                out', paContinue) \<and>
           length out' = length out \<and>
           (\<forall>i. i < length out \<and> (i < oa \<or> oa + unat len \<le> i) \<longrightarrow> out' ! i = out ! i) \<and>
           (\<forall>i. oa + unat (if len < fifo_bytes_used (fifo (audio w)) then len
                              else fifo_bytes_used (fifo (audio w))) \<le> i \<and>
                i < oa + unat len \<longrightarrow> out' ! i = 0) \<and>
           (\<forall>k. 8 * k + 8 \<le> unat (if len < fifo_bytes_used (fifo (audio w)) then len
                                  else fifo_bytes_used (fifo (audio w))) \<longrightarrow>
              load32 out' (oa + 8 * k) =
                fm (lgain (audio w))
                  (load32 (decode_fifo_buf w)
                    ((unat (rptr (fifo (audio w))) +
                      unat (skip_amount (fifo_bytes_used (fifo (audio w))) len
                              (skip_ahead_bytes (audio w))) + 8 * k)
                     mod unat (fifo_size (fifo (audio w))))) \<and>
              load32 out' (oa + 8 * k + 4) =
                fm (rgain (audio w))
                  (load32 (decode_fifo_buf w)
                    ((unat (rptr (fifo (audio w))) +
                      unat (skip_amount (fifo_bytes_used (fifo (audio w))) len
                              (skip_ahead_bytes (audio w))) + 8 * k + 4)
                     mod unat (fifo_size (fifo (audio w))))))"
proof -
  define a where "a = audio w"
  define r where "r = unat (rptr (fifo a))"
  define s where "s = unat (fifo_size (fifo a))"
  define bu0 where "bu0 = fifo_bytes_used (fifo a)"
  define sk where "sk = skip_amount bu0 len (skip_ahead_bytes a)"
  define bu where "bu = (if len < bu0 then len else bu0)"
  define a1 where "a1 = (if bu < len then a\<lparr>state := state a OR DECODE_STATE_UNDERRUN\<rparr>
                         else a\<lparr>state := state a AND NOT DECODE_STATE_UNDERRUN\<rparr>)"
  define out1 where "out1 = (if bu < len then memset0 out (oa + unat bu) (unat (len - bu)) else out)"
  define a2 where "a2 = skip_ahead a1 sk"
  have r_lt: "r < s" and s8: "8 dvd s" and r8: "8 dvd r"
    and sa8: "8 dvd unat (skip_ahead_bytes a)"
    using ok al by (simp_all add: fifo_ok_def frame_aligned_def word_less_nat_alt a_def r_def s_def)
  have u_lt: "unat bu0 < s"
    using ok by (simp add: bu0_def s_def a_def fifo_bytes_used_less)
  have u8: "8 dvd unat bu0"
    using ok al by (simp add: bu0_def a_def frame_aligned_def fifo_bytes_used_aligned)
  have ubu: "unat bu = min (unat bu0) (unat len)"
    by (auto simp: bu_def word_less_nat_alt)
  have bu_nz: "bu \<noteq> 0"
    using nz unfolding bu_def bu0_def a_def .
  have bu_lt: "bu < len \<longleftrightarrow> bu0 < len"
    by (auto simp: bu_def)
  have usk: "unat sk = (if unat len \<le> unat bu0 \<and> 0 < unat (skip_ahead_bytes a)
                         then min (unat (skip_ahead_bytes a)) (unat bu0 - unat len) else 0)"
    by (simp add: sk_def unat_skip_amount)
  have sk_le: "unat sk + unat bu \<le> unat bu0"
    using usk ubu by (auto simp: min_def)
  have sk8: "8 dvd unat sk"
    using usk sa8 u8 l8 by (auto simp: min_def dvd_diff_nat)
  have a1f: "fifo a1 = fifo a" "skip_ahead_bytes a1 = skip_ahead_bytes a"
    "elapsed_samples a1 = elapsed_samples a" "lgain a1 = lgain a" "rgain a1 = rgain a"
    by (simp_all add: a1_def)
  have a2_eq: "a2 = a1\<lparr>fifo := (fifo a)\<lparr>rptr := of_nat ((r + unat sk) mod s)\<rparr>,
                       skip_ahead_bytes := skip_ahead_bytes a - sk,
                       elapsed_samples := elapsed_samples a + BYTES_TO_SAMPLES sk\<rparr>"
    unfolding a2_def r_def s_def
    using r_lt s8 r8 sk_le u_lt
    by (subst skip_ahead_correct) (simp_all add: a1f r_def s_def)
  have r2_lt: "(r + unat sk) mod s < s"
    using r_lt by simp
  have r2: "unat (rptr (fifo a2)) = (r + unat sk) mod s"
    using r2_lt by (simp add: a2_eq s_def unat_of_nat_less)
  have s2: "unat (fifo_size (fifo a2)) = s"
    by (simp add: a2_eq s_def)
  have r2_8: "8 dvd (r + unat sk) mod s"
    using r8 sk8 s8 by (simp add: dvd_mod)
  have len1: "length out1 = length out"
    by (simp add: out1_def)
  have "\<exists>out'. copy_loop fm (decode_fifo_buf w) a2 out1 oa bu =
            Some (a2\<lparr>fifo := (fifo a2)\<lparr>rptr :=
                      of_nat ((unat (rptr (fifo a2)) + unat bu) mod unat (fifo_size (fifo a2)))\<rparr>,
                    elapsed_samples := elapsed_samples a2 + BYTES_TO_SAMPLES bu\<rparr>, out') \<and>
          length out' = length out1 \<and>
          (\<forall>i. i < oa \<or> oa + unat bu \<le> i \<longrightarrow> out' ! i = out1 ! i) \<and>
          (\<forall>k. 8 * k + 8 \<le> unat bu \<longrightarrow>
             load32 out' (oa + 8 * k) =
               fm (lgain a2) (load32 (decode_fifo_buf w) ((unat (rptr (fifo a2)) + 8 * k)
                                          mod unat (fifo_size (fifo a2)))) \<and>
             load32 out' (oa + 8 * k + 4) =
               fm (rgain a2) (load32 (decode_fifo_buf w) ((unat (rptr (fifo a2)) + 8 * k + 4)
                                          mod unat (fifo_size (fifo a2)))))"
  proof (rule copy_loop_correct)
    show "unat (rptr (fifo a2)) < unat (fifo_size (fifo a2))"
      using r2 s2 r2_lt by simp
    show "8 dvd unat (fifo_size (fifo a2))"
      using s2 s8 by simp
    show "8 dvd unat (rptr (fifo a2)) \<or>
          unat (rptr (fifo a2)) + unat bu \<le> unat (fifo_size (fifo a2))"
      using r2 r2_8 by simp
    show "oa + unat bu \<le> length out1"
      using fits ubu len1 by simp
  qed
  then obtain out' where
    res: "copy_loop fm (decode_fifo_buf w) a2 out1 oa bu =
            Some (a2\<lparr>fifo := (fifo a2)\<lparr>rptr :=
                      of_nat ((unat (rptr (fifo a2)) + unat bu) mod unat (fifo_size (fifo a2)))\<rparr>,
                    elapsed_samples := elapsed_samples a2 + BYTES_TO_SAMPLES bu\<rparr>, out')"
    and len: "length out' = length out1"
    and outside: "\<And>i. i < oa \<or> oa + unat bu \<le> i \<Longrightarrow> out' ! i = out1 ! i"
    and frames: "\<And>k. 8 * k + 8 \<le> unat bu \<Longrightarrow>
             load32 out' (oa + 8 * k) =
               fm (lgain a2) (load32 (decode_fifo_buf w) ((unat (rptr (fifo a2)) + 8 * k)
                                          mod unat (fifo_size (fifo a2)))) \<and>
             load32 out' (oa + 8 * k + 4) =
               fm (rgain a2) (load32 (decode_fifo_buf w) ((unat (rptr (fifo a2)) + 8 * k + 4)
                                          mod unat (fifo_size (fifo a2))))"
    by blast
  have idx: "((r + unat sk) mod s + x) mod s = (r + unat sk + x) mod s" for x
    by (simp add: mod_add_left_eq)
  have idx4: "((r + unat sk) mod s + x + 4) mod s = (r + unat sk + x + 4) mod s" for x
    by (simp add: mod_add_left_eq add.assoc)
  have a3_eq: "a2\<lparr>fifo := (fifo a2)\<lparr>rptr :=
                      of_nat ((unat (rptr (fifo a2)) + unat bu) mod unat (fifo_size (fifo a2)))\<rparr>,
                    elapsed_samples := elapsed_samples a2 + BYTES_TO_SAMPLES bu\<rparr> =
      a\<lparr>fifo := (fifo a)\<lparr>rptr := of_nat ((r + unat sk + unat bu) mod s)\<rparr>,
        state := (if bu0 < len then state a OR DECODE_STATE_UNDERRUN
                  else state a AND NOT DECODE_STATE_UNDERRUN),
        skip_ahead_bytes := skip_ahead_bytes a - sk,
        elapsed_samples := elapsed_samples a + BYTES_TO_SAMPLES sk + BYTES_TO_SAMPLES bu\<rparr>"
    unfolding r2 s2 idx
    by (simp add: a2_eq a1_def bu_lt)
  have unf: "render fm chk F w out oa len =
      (if bu = 0 then
         unlock_mixin_effects F (w\<lparr>audio := a\<lparr>state := state a OR DECODE_STATE_UNDERRUN\<rparr>\<rparr>)
           (memset0 out oa (unat len))
       else case copy_loop fm (decode_fifo_buf w) a2 out1 oa bu of
              None \<Rightarrow> Inl Loop_forever
            | Some (a3, out3) \<Rightarrow>
                unlock_mixin_effects F
                  (w\<lparr>audio := note_sample_rate chk (stream_sample_rate w) a3\<rparr>) out3)"
    unfolding render_def Let_def a2_def out1_def a1_def bu_def sk_def bu0_def a_def
    by (rule refl)
  have render_eq: "render fm chk F w out oa len =
      Inr (w\<lparr>audio := note_sample_rate chk (stream_sample_rate w)
                 (a\<lparr>fifo := (fifo a)\<lparr>rptr := of_nat ((r + unat sk + unat bu) mod s)\<rparr>,
                    state := (if bu0 < len then state a OR DECODE_STATE_UNDERRUN
                              else state a AND NOT DECODE_STATE_UNDERRUN),
                    skip_ahead_bytes := skip_ahead_bytes a - sk,
                    elapsed_samples := elapsed_samples a + BYTES_TO_SAMPLES sk + BYTES_TO_SAMPLES bu\<rparr>),
             trace := trace w @ [Audio_unlock, Sample_mix (unat (SAMPLES_TO_BYTES F))]\<rparr>,
           out', paContinue)"
    using bu_nz unfolding unf res a3_eq
    by (simp add: unlock_mixin_effects_def mixin_effects_def emit_def)
  have o_outside: "out' ! i = out ! i" if "i < length out \<and> (i < oa \<or> oa + unat len \<le> i)" for i
  proof -
    have "out' ! i = out1 ! i"
      using that ubu by (intro outside) auto
    also have "out1 ! i = out ! i"
    proof -
      have "unat (len - bu) = unat len - unat bu" if "bu < len"
        using that by (simp add: unat_sub)
      then show ?thesis using that ubu by (auto simp: out1_def nth_memset0)
    qed
    finally show ?thesis .
  qed
  have o_tail: "out' ! i = 0" if "oa + unat bu \<le> i \<and> i < oa + unat len" for i
  proof -
    from that have lt: "unat bu < unat len" by simp
    then have b: "bu < len" by (simp add: word_less_nat_alt)
    have ble: "bu \<le> len" using b by simp
    have ub: "unat bu = unat bu" ..
    have "out' ! i = out1 ! i"
      using that by (intro outside) simp
    also have "out1 ! i = 0"
      using that b ub fits ble by (simp add: out1_def nth_memset0 unat_sub)
    finally show ?thesis .
  qed
  have o_frames:
    "load32 out' (oa + 8 * k) =
       fm (lgain a) (load32 (decode_fifo_buf w) ((r + unat sk + 8 * k) mod s)) \<and>
     load32 out' (oa + 8 * k + 4) =
       fm (rgain a) (load32 (decode_fifo_buf w) ((r + unat sk + 8 * k + 4) mod s))"
    if "8 * k + 8 \<le> unat bu" for k
  proof -
    from frames [OF that] show ?thesis
      unfolding r2 s2 idx idx4 by (simp add: a2_eq a1f)
  qed
  show ?thesis
    unfolding a_def [symmetric] bu0_def [symmetric] sk_def [symmetric] r_def [symmetric]
      s_def [symmetric] bu_def [symmetric]
    using render_eq len len1 o_outside o_tail o_frames
    by (intro exI [of _ out']) simp
qed

lemma dvd8_SAMPLES_TO_BYTES: "8 dvd unat (SAMPLES_TO_BYTES n)"
proof -
  have "unat (SAMPLES_TO_BYTES n) = (8 * unat n) mod 2 ^ 32"
    by (simp add: SAMPLES_TO_BYTES_def unat_word_ariths mod_mult_right_eq mult.commute)
  moreover have "(8::nat) dvd 2 ^ 32" by simp
  ultimately show ?thesis by (simp add: dvd_mod)
qed

lemma silence_bytes_le: "silence_bytes rate ms len \<le> len"
  by (auto simp: silence_bytes_def Let_def)

lemma dvd8_silence_bytes: "8 dvd unat len \<Longrightarrow> 8 dvd unat (silence_bytes rate ms len)"
  by (simp add: silence_bytes_def Let_def dvd8_SAMPLES_TO_BYTES)

lemma add_bytes_at_le: "add_bytes_at w F \<le> SAMPLES_TO_BYTES F"
  by (simp add: add_bytes_at_def silence_bytes_le)

lemma dvd8_add_bytes_at: "8 dvd unat (add_bytes_at w F)"
  by (simp add: add_bytes_at_def dvd8_silence_bytes dvd8_SAMPLES_TO_BYTES)

lemma unat_len_at: "unat (len_at w F) = unat (SAMPLES_TO_BYTES F) - unat (add_bytes_at w F)"
  by (simp add: len_at_def unat_sub add_bytes_at_le)

lemma dvd8_len_at: "8 dvd unat (len_at w F)"
  by (simp add: unat_len_at dvd_diff_nat dvd8_add_bytes_at dvd8_SAMPLES_TO_BYTES)

lemma add_plus_len: "unat (add_bytes_at w F) + unat (len_at w F) = unat (SAMPLES_TO_BYTES F)"
  using add_bytes_at_le [of w F] by (simp add: unat_len_at word_le_nat_alt)

lemma memset0_none [simp]: "memset0 m p 0 = m"
  by (auto simp: memset0_def intro!: nth_equalityI)

lemma state_note_sample_rate [simp]:
  "state (note_sample_rate chk rate a) = state a"
  "fifo (note_sample_rate chk rate a) = fifo a"
  "elapsed_samples (note_sample_rate chk rate a) = elapsed_samples a"
  "skip_ahead_bytes (note_sample_rate chk rate a) = skip_ahead_bytes a"
  "add_silence_ms (note_sample_rate chk rate a) = add_silence_ms a"
  "track_sample_rate (note_sample_rate chk rate a) = track_sample_rate a"
  by (simp_all add: note_sample_rate_def Let_def)

lemma underrun_set: "(x OR DECODE_STATE_UNDERRUN) AND DECODE_STATE_UNDERRUN \<noteq> 0"
proof -
  have "(x OR DECODE_STATE_UNDERRUN) AND DECODE_STATE_UNDERRUN = DECODE_STATE_UNDERRUN"
    by (rule word_ao_absorbs)
  then show ?thesis by (simp add: DECODE_STATE_UNDERRUN_def)
qed

lemma underrun_clear: "(x AND NOT DECODE_STATE_UNDERRUN) AND DECODE_STATE_UNDERRUN = 0"
  by (simp add: DECODE_STATE_UNDERRUN_def and.assoc)

lemma running_kept:
  "(x OR DECODE_STATE_UNDERRUN) AND DECODE_STATE_RUNNING = x AND DECODE_STATE_RUNNING"
  "(x AND NOT DECODE_STATE_UNDERRUN) AND DECODE_STATE_RUNNING = x AND DECODE_STATE_RUNNING"
  by (simp_all add: DECODE_STATE_UNDERRUN_def DECODE_STATE_RUNNING_def
      bit.conj_disj_distrib2 and.assoc)

lemma callback_running:
  assumes "state (audio w) AND DECODE_STATE_RUNNING \<noteq> 0"
    and "add_silence_ms (audio w) \<noteq> 0 \<longrightarrow> stream_sample_rate w \<noteq> 0"
  shows "callback fm chk w ob F =
     (if add_silence_ms (audio w) \<noteq> 0 \<and> len_at w F = 0
      then unlock_mixin_effects F (emit Audio_lock w) (memset0 ob 0 (unat (add_bytes_at w F)))
      else render fm chk F (emit Audio_lock w) (memset0 ob 0 (unat (add_bytes_at w F)))
             (unat (add_bytes_at w F)) (len_at w F))"
  using assms
  by (simp add: callback_def Let_def emit_def silence_left_def len_at_def add_bytes_at_def)

lemma callback_copy:
  assumes run: "state (audio w) AND DECODE_STATE_RUNNING \<noteq> 0"
    and dz: "add_silence_ms (audio w) \<noteq> 0 \<longrightarrow> stream_sample_rate w \<noteq> 0"
    and ok: "fifo_ok (fifo (audio w))"
    and al: "frame_aligned (audio w)"
    and lenb: "length ob = unat (SAMPLES_TO_BYTES F)"
    and nz: "bytes_used_at w F \<noteq> 0"
  shows "\<exists>out'. callback fm chk w ob F =
           Inr (w\<lparr>audio := note_sample_rate chk (stream_sample_rate w)
                    ((audio w)\<lparr>fifo := (fifo (audio w))\<lparr>rptr :=
                         of_nat ((unat (rptr (fifo (audio w))) + unat (skip_bytes_at w F) +
                                  unat (bytes_used_at w F))
                                 mod unat (fifo_size (fifo (audio w))))\<rparr>,
                      state := (if fifo_bytes_used (fifo (audio w)) < len_at w F
                                then state (audio w) OR DECODE_STATE_UNDERRUN
                                else state (audio w) AND NOT DECODE_STATE_UNDERRUN),
                      skip_ahead_bytes := skip_ahead_bytes (audio w) - skip_bytes_at w F,
                      elapsed_samples := elapsed_samples (audio w) +
                         BYTES_TO_SAMPLES (skip_bytes_at w F) +
                         BYTES_TO_SAMPLES (bytes_used_at w F)\<rparr>),
                  trace := trace w @
                    [Audio_lock, Audio_unlock, Sample_mix (unat (SAMPLES_TO_BYTES F))]\<rparr>,
                out', paContinue) \<and>
           length out' = length ob \<and>
           (\<forall>i. i < unat (add_bytes_at w F) \<longrightarrow> out' ! i = 0) \<and>
           (\<forall>i. unat (add_bytes_at w F) + unat (bytes_used_at w F) \<le> i \<and> i < length ob \<longrightarrow>
                out' ! i = 0) \<and>
           (\<forall>k. 8 * k + 8 \<le> unat (bytes_used_at w F) \<longrightarrow>
              gained_frame fm (audio w) (decode_fifo_buf w) (unat (skip_bytes_at w F) + 8 * k)
                out' (unat (add_bytes_at w F) + 8 * k))"
proof -
  let ?w1 = "emit Audio_lock w"
  let ?oa = "unat (add_bytes_at w F)"
  let ?out = "memset0 ob 0 ?oa"
  have w1: "audio ?w1 = audio w" "stream_sample_rate ?w1 = stream_sample_rate w"
    "decode_fifo_buf ?w1 = decode_fifo_buf w" "trace ?w1 = trace w @ [Audio_lock]"
    by (simp_all add: emit_def)
  have len_nz: "len_at w F \<noteq> 0"
    using nz by (auto simp: bytes_used_at_def word_neq_0_conv split: if_splits)
  have cb: "callback fm chk w ob F = render fm chk F ?w1 ?out ?oa (len_at w F)"
    using callback_running [OF run dz] len_nz by simp
  have fits: "?oa + unat (len_at w F) \<le> length ?out"
    using add_plus_len [of w F] lenb by simp
  have nz': "(if len_at w F < fifo_bytes_used (fifo (audio ?w1)) then len_at w F
              else fifo_bytes_used (fifo (audio ?w1))) \<noteq> 0"
    using nz by (auto simp: bytes_used_at_def w1 split: if_splits)
  have ok': "fifo_ok (fifo (audio ?w1))" and al': "frame_aligned (audio ?w1)"
    using ok al by (simp_all add: w1)
  have pre: "i < ?oa \<Longrightarrow> ?out ! i = 0" for i
    using add_plus_len [of w F] lenb by (simp add: nth_memset0)
  have pre_len: "?oa \<le> length ob"
    using add_plus_len [of w F] lenb by simp
  from render_copy [OF ok' al' dvd8_len_at fits nz', of fm chk F]
  show ?thesis
    unfolding cb w1
    apply (elim exE conjE)
    subgoal for out'
      apply (rule exI [of _ out'])
      apply (intro conjI)
      subgoal by (simp add: skip_bytes_at_def bytes_used_at_def emit_def)
      subgoal by simp
      subgoal using pre pre_len by auto
      subgoal using add_plus_len [of w F] lenb by (auto simp: bytes_used_at_def)
      subgoal by (simp add: gained_frame_def skip_bytes_at_def bytes_used_at_def add.assoc)
      done
    done
qed

lemma memset0_twice_all:
  "length m \<le> p + n \<Longrightarrow> memset0 (memset0 m 0 p) p n = replicate (length m) 0"
  by (auto simp: memset0_def intro!: nth_equalityI)

lemma callback_no_copy:
  assumes run: "state (audio w) AND DECODE_STATE_RUNNING \<noteq> 0"
    and dz: "add_silence_ms (audio w) \<noteq> 0 \<longrightarrow> stream_sample_rate w \<noteq> 0"
    and lenb: "length ob = unat (SAMPLES_TO_BYTES F)"
    and z: "bytes_used_at w F = 0"
  shows "callback fm chk w ob F =
           Inr (w\<lparr>audio := (if add_silence_ms (audio w) \<noteq> 0 \<and> len_at w F = 0 then audio w
                            else (audio w)\<lparr>state := state (audio w) OR DECODE_STATE_UNDERRUN\<rparr>),
                  trace := trace w @
                    [Audio_lock, Audio_unlock, Sample_mix (unat (SAMPLES_TO_BYTES F))]\<rparr>,
                replicate (length ob) 0, paContinue)"
proof (cases "add_silence_ms (audio w) \<noteq> 0 \<and> len_at w F = 0")
  case True
  then have "unat (add_bytes_at w F) = length ob"
    using add_plus_len [of w F] lenb by simp
  then show ?thesis
    using True callback_running [OF run dz, of fm chk ob F]
    by (simp add: unlock_mixin_effects_def mixin_effects_def emit_def memset0_all)
next
  case False
  let ?w1 = "emit Audio_lock w"
  have z': "(if len_at w F < fifo_bytes_used (fifo (audio ?w1)) then len_at w F
             else fifo_bytes_used (fifo (audio ?w1))) = 0"
    using z by (auto simp: bytes_used_at_def emit_def split: if_splits)
  have "length ob \<le> unat (add_bytes_at w F) + unat (len_at w F)"
    using add_plus_len [of w F] lenb by simp
  then have m: "memset0 (memset0 ob 0 (unat (add_bytes_at w F))) (unat (add_bytes_at w F))
               (unat (len_at w F)) = replicate (length ob) 0"
    by (rule memset0_twice_all)
  have cb: "callback fm chk w ob F =
      render fm chk F ?w1 (memset0 ob 0 (unat (add_bytes_at w F)))
        (unat (add_bytes_at w F)) (len_at w F)"
    by (simp only: callback_running [OF run dz] False if_False)
  show ?thesis
    unfolding cb render_empty [OF z'] m
    using False by (auto simp: emit_def)
qed

lemma callback_stopped:
  assumes "state (audio w) AND DECODE_STATE_RUNNING = 0"
  shows "callback fixed_mul chk w outputBuffer framesPerBuffer =
           Inr (w\<lparr>trace := trace w @
                    [Audio_lock, Sample_mix (unat (SAMPLES_TO_BYTES framesPerBuffer))]\<rparr>,
                memset0 outputBuffer 0 (unat (SAMPLES_TO_BYTES framesPerBuffer)), paContinue)"
  using assms by (simp add: callback_def Let_def emit_def mixin_effects_def)

lemma skip_amount_fits:
  "unat (skip_amount bu len sa) + unat (if len < bu then len else bu) \<le> unat bu"
  by (auto simp: unat_skip_amount word_less_nat_alt min_def)

lemma dvd8_skip_amount:
  "8 dvd unat bu \<Longrightarrow> 8 dvd unat len \<Longrightarrow> 8 dvd unat sa \<Longrightarrow> 8 dvd unat (skip_amount bu len sa)"
  by (auto simp: unat_skip_amount min_def dvd_diff_nat)

lemma BYTES_TO_SAMPLES_add:
  assumes "8 dvd unat x" and "unat x + unat y < 2 ^ 32"
  shows "BYTES_TO_SAMPLES x + BYTES_TO_SAMPLES y = BYTES_TO_SAMPLES (x + y)"
proof -
  have u: "unat (x + y) = unat x + unat y"
    using assms(2) by (simp add: unat_add_lem [THEN iffD1])
  then have "x \<le> x + y"
    by (simp add: word_le_nat_alt)
  from BYTES_TO_SAMPLES_split [OF this assms(1)] show ?thesis
    by simp
qed

lemma unat_bytes_used_at:
  "unat (bytes_used_at w F) = min (unat (fifo_bytes_used (fifo (audio w)))) (unat (len_at w F))"
  by (auto simp: bytes_used_at_def word_less_nat_alt)

lemma unat_len_at_plain:
  assumes "add_silence_ms (audio w) = 0" and "8 * unat F < 2 ^ 32"
  shows "unat (len_at w F) = 8 * unat F" and "add_bytes_at w F = 0"
  using assms by (simp_all add: len_at_def add_bytes_at_def unat_SAMPLES_TO_BYTES)

lemma underrun_nz: "DECODE_STATE_UNDERRUN \<noteq> 0"
  by (simp add: DECODE_STATE_UNDERRUN_def)

lemma callback_copy_state:
  assumes run: "state (audio w) AND DECODE_STATE_RUNNING \<noteq> 0"
    and dz: "add_silence_ms (audio w) \<noteq> 0 \<longrightarrow> stream_sample_rate w \<noteq> 0"
    and ok: "fifo_ok (fifo (audio w))"
    and al: "frame_aligned (audio w)"
    and lenb: "length ob = unat (SAMPLES_TO_BYTES F)"
    and nz: "bytes_used_at w F \<noteq> 0"
  shows "\<exists>out'. callback fm chk w ob F =
           Inr (w\<lparr>audio := note_sample_rate chk (stream_sample_rate w)
                    ((audio w)\<lparr>fifo := (fifo (audio w))\<lparr>rptr :=
                         of_nat ((unat (rptr (fifo (audio w))) + unat (skip_bytes_at w F) +
                                  unat (bytes_used_at w F))
                                 mod unat (fifo_size (fifo (audio w))))\<rparr>,
                      state := (if fifo_bytes_used (fifo (audio w)) < len_at w F
                                then state (audio w) OR DECODE_STATE_UNDERRUN
                                else state (audio w) AND NOT DECODE_STATE_UNDERRUN),
                      skip_ahead_bytes := skip_ahead_bytes (audio w) - skip_bytes_at w F,
                      elapsed_samples := elapsed_samples (audio w) +
                         BYTES_TO_SAMPLES (skip_bytes_at w F) +
                         BYTES_TO_SAMPLES (bytes_used_at w F)\<rparr>),
                  trace := trace w @
                    [Audio_lock, Audio_unlock, Sample_mix (unat (SAMPLES_TO_BYTES F))]\<rparr>,
                out', paContinue)"
  using callback_copy [OF assms, of fm chk] by blast

lemma skip_plus_used:
  assumes ok: "fifo_ok (fifo (audio w))" and al: "frame_aligned (audio w)"
  shows "BYTES_TO_SAMPLES (skip_bytes_at w F) + BYTES_TO_SAMPLES (bytes_used_at w F) =
         BYTES_TO_SAMPLES (skip_bytes_at w F + bytes_used_at w F)"
    and "unat (skip_bytes_at w F) + unat (bytes_used_at w F) \<le>
         unat (fifo_bytes_used (fifo (audio w)))"
proof -
  have u8: "8 dvd unat (fifo_bytes_used (fifo (audio w)))"
    using ok al by (simp add: frame_aligned_def fifo_bytes_used_aligned)
  have sa8: "8 dvd unat (skip_ahead_bytes (audio w))"
    using al by (simp add: frame_aligned_def)
  have sk8: "8 dvd unat (skip_bytes_at w F)"
    unfolding skip_bytes_at_def by (rule dvd8_skip_amount [OF u8 dvd8_len_at sa8])
  show le: "unat (skip_bytes_at w F) + unat (bytes_used_at w F) \<le>
            unat (fifo_bytes_used (fifo (audio w)))"
    unfolding skip_bytes_at_def bytes_used_at_def by (rule skip_amount_fits)
  have "unat (fifo_bytes_used (fifo (audio w))) < 2 ^ 32"
    using unsigned_less [of "fifo_bytes_used (fifo (audio w))", where 'a = nat] by simp
  with le have "unat (skip_bytes_at w F) + unat (bytes_used_at w F) < 2 ^ 32"
    by simp
  with sk8 show "BYTES_TO_SAMPLES (skip_bytes_at w F) + BYTES_TO_SAMPLES (bytes_used_at w F) =
         BYTES_TO_SAMPLES (skip_bytes_at w F + bytes_used_at w F)"
    by (rule BYTES_TO_SAMPLES_add)
qed

lemma unat_new_rptr:
  assumes "fifo_ok f"
  shows "unat (of_nat (n mod unat (fifo_size f)) :: 32 word) = n mod unat (fifo_size f)"
proof -
  have "0 < unat (fifo_size f)"
    using assms by (auto simp: fifo_ok_def word_less_nat_alt)
  then have "n mod unat (fifo_size f) < unat (fifo_size f)"
    by simp
  then show ?thesis by (rule unat_of_nat_less)
qed

lemma fifo_bytes_used_after:
  assumes ok: "fifo_ok f" and c: "c \<le> unat (fifo_bytes_used f)"
  shows "unat (fifo_bytes_used (f\<lparr>rptr := of_nat ((unat (rptr f) + c) mod unat (fifo_size f))\<rparr>)) =
         unat (fifo_bytes_used f) - c"
proof -
  define r where "r = unat (rptr f)"
  define wp where "wp = unat (wptr f)"
  define s where "s = unat (fifo_size f)"
  define r' where "r' = (r + c) mod s"
  have r: "r < s" and wp: "wp < s"
    using ok by (simp_all add: fifo_ok_def word_less_nat_alt r_def wp_def s_def)
  have U: "unat (fifo_bytes_used f) = (if r \<le> wp then wp - r else s - r + wp)"
    using ok by (simp add: unat_fifo_bytes_used r_def wp_def s_def)
  have ur': "unat (of_nat r' :: 32 word) = r'"
    unfolding r'_def s_def by (rule unat_new_rptr [OF ok])
  have r'_lt: "r' < s" using r by (simp add: r'_def)
  have ok': "fifo_ok (f\<lparr>rptr := of_nat r'\<rparr>)"
    using ok r'_lt ur' by (simp add: fifo_ok_def word_less_nat_alt s_def)
  have U': "unat (fifo_bytes_used (f\<lparr>rptr := of_nat r'\<rparr>)) =
            (if r' \<le> wp then wp - r' else s - r' + wp)"
    using ur' by (simp add: unat_fifo_bytes_used [OF ok'] wp_def s_def)
  have r'_val: "r' = (if r + c < s then r + c else r + c - s)"
  proof (cases "r + c < s")
    case True
    then show ?thesis by (simp add: r'_def)
  next
    case False
    then have "r + c = (r + c - s) + s" by simp
    then have "(r + c) mod s = (r + c - s) mod s"
      by (metis mod_add_self2)
    moreover have "r + c - s < s" using c U r wp by (auto split: if_splits)
    ultimately show ?thesis using False by (simp add: r'_def)
  qed
  have "(if r' \<le> wp then wp - r' else s - r' + wp) = (if r \<le> wp then wp - r else s - r + wp) - c"
    using c U r wp unfolding r'_val by (auto split: if_splits)
  then show ?thesis
    unfolding r'_def [symmetric] r_def [symmetric] s_def [symmetric]
    using U U' by (simp add: r'_def r_def s_def)
qed

subsubsection \<open>The concrete inputs\<close>

lemmas ex_defs = world_ex_def audio_ex_def world_ex2_def audio_ex2_def fifo_ok_def
  frame_aligned_def DECODE_STATE_RUNNING_def DECODE_STATE_UNDERRUN_def

lemma ex_values:
  "unat (fifo_bytes_used (fifo (audio world_ex))) = 8"
  "skip_bytes_at world_ex 2 = 0"
  "len_at world_ex 1 = 8"
  "bytes_used_at world_ex 1 = 8"
  "skip_bytes_at world_ex 1 = 0"
  "fifo_bytes_used (fifo (audio world_ex2)) = 24"
  "len_at world_ex2 1 = 8"
  "skip_bytes_at world_ex2 1 = 16"
  "bytes_used_at world_ex2 1 = 8"
  by (simp_all add: ex_defs fifo_bytes_used_def skip_bytes_at_def skip_amount_def len_at_def
      add_bytes_at_def bytes_used_at_def SAMPLES_TO_BYTES_def)

subsection \<open>The output and the underrun flag\<close>

text \<open>
  C1. The callback runs with the running flag set and no pending silence, for
  \<open>framesPerBuffer\<close> frames (at least one), on a ring buffer that holds whole frames,
  \<open>U\<close> bytes of them. If \<open>U\<close> covers the request, every frame of the output is a
  frame of the ring buffer (the frames that follow the skipped bytes) scaled by the gains,
  and the underrun flag is cleared. If \<open>0 < U\<close> and \<open>U\<close> is less than the request,
  the first \<open>U\<close> bytes of the output are the buffered frames scaled by the gains, the
  rest of the output is zero, and the underrun flag is set. If \<open>U = 0\<close> the whole
  output is zero and the underrun flag is set.
\<close>

theorem callback_output_by_fill_level:
  assumes run: "state (audio w) AND DECODE_STATE_RUNNING \<noteq> 0"
    and nos: "add_silence_ms (audio w) = 0"
    and ok: "fifo_ok (fifo (audio w))"
    and al: "frame_aligned (audio w)"
    and lenb: "length outputBuffer = 8 * unat framesPerBuffer"
    and pos: "0 < unat framesPerBuffer"
    and fit: "8 * unat framesPerBuffer < 2 ^ 32"
  shows "\<exists>w' out'.
      callback fixed_mul chk w outputBuffer framesPerBuffer = Inr (w', out', paContinue) \<and>
      length out' = 8 * unat framesPerBuffer \<and>
      (8 * unat framesPerBuffer \<le> unat (fifo_bytes_used (fifo (audio w))) \<longrightarrow>
         (\<forall>k < unat framesPerBuffer.
            gained_frame fixed_mul (audio w) (decode_fifo_buf w)
              (unat (skip_bytes_at w framesPerBuffer) + 8 * k) out' (8 * k)) \<and>
         state (audio w') AND DECODE_STATE_UNDERRUN = 0) \<and>
      (0 < unat (fifo_bytes_used (fifo (audio w))) \<and>
       unat (fifo_bytes_used (fifo (audio w))) < 8 * unat framesPerBuffer \<longrightarrow>
         (\<forall>k. 8 * k + 8 \<le> unat (fifo_bytes_used (fifo (audio w))) \<longrightarrow>
            gained_frame fixed_mul (audio w) (decode_fifo_buf w) (8 * k) out' (8 * k)) \<and>
         (\<forall>i. unat (fifo_bytes_used (fifo (audio w))) \<le> i \<and> i < 8 * unat framesPerBuffer \<longrightarrow>
            out' ! i = 0) \<and>
         state (audio w') AND DECODE_STATE_UNDERRUN \<noteq> 0) \<and>
      (unat (fifo_bytes_used (fifo (audio w))) = 0 \<longrightarrow>
         out' = replicate (8 * unat framesPerBuffer) 0 \<and>
         state (audio w') AND DECODE_STATE_UNDERRUN \<noteq> 0)"
proof -
  define U where "U = unat (fifo_bytes_used (fifo (audio w)))"
  have dz: "add_silence_ms (audio w) \<noteq> 0 \<longrightarrow> stream_sample_rate w \<noteq> 0"
    using nos by simp
  have ul: "unat (len_at w framesPerBuffer) = 8 * unat framesPerBuffer"
    and ab: "add_bytes_at w framesPerBuffer = 0"
    using unat_len_at_plain [OF nos fit] by simp_all
  have lenb': "length outputBuffer = unat (SAMPLES_TO_BYTES framesPerBuffer)"
    using lenb fit by (simp add: unat_SAMPLES_TO_BYTES)
  have ubu: "unat (bytes_used_at w framesPerBuffer) = min U (8 * unat framesPerBuffer)"
    by (simp add: unat_bytes_used_at ul U_def)
  show ?thesis
  proof (cases "U = 0")
    case True
    then have z: "bytes_used_at w framesPerBuffer = 0"
      using ubu by (simp add: unat_eq_0)
    show ?thesis
      unfolding U_def [symmetric]
      using callback_no_copy [OF run dz lenb' z, of fixed_mul chk] True nos lenb pos
      by (simp add: underrun_set underrun_nz)
  next
    case False
    then have nz: "bytes_used_at w framesPerBuffer \<noteq> 0"
      using ubu pos by (auto simp: unat_eq_0 [symmetric] simp del: unat_eq_0)
    from callback_copy [OF run dz ok al lenb' nz, of fixed_mul chk]
    obtain out' where
      res: "callback fixed_mul chk w outputBuffer framesPerBuffer =
           Inr (w\<lparr>audio := note_sample_rate chk (stream_sample_rate w)
                    ((audio w)\<lparr>fifo := (fifo (audio w))\<lparr>rptr :=
                         of_nat ((unat (rptr (fifo (audio w))) +
                                  unat (skip_bytes_at w framesPerBuffer) +
                                  unat (bytes_used_at w framesPerBuffer))
                                 mod unat (fifo_size (fifo (audio w))))\<rparr>,
                      state := (if fifo_bytes_used (fifo (audio w)) < len_at w framesPerBuffer
                                then state (audio w) OR DECODE_STATE_UNDERRUN
                                else state (audio w) AND NOT DECODE_STATE_UNDERRUN),
                      skip_ahead_bytes := skip_ahead_bytes (audio w) -
                         skip_bytes_at w framesPerBuffer,
                      elapsed_samples := elapsed_samples (audio w) +
                         BYTES_TO_SAMPLES (skip_bytes_at w framesPerBuffer) +
                         BYTES_TO_SAMPLES (bytes_used_at w framesPerBuffer)\<rparr>),
                  trace := trace w @
                    [Audio_lock, Audio_unlock,
                     Sample_mix (unat (SAMPLES_TO_BYTES framesPerBuffer))]\<rparr>,
                out', paContinue)"
      and len: "length out' = length outputBuffer"
      and tail: "\<And>i. unat (add_bytes_at w framesPerBuffer) +
                      unat (bytes_used_at w framesPerBuffer) \<le> i \<and> i < length outputBuffer \<Longrightarrow>
                    out' ! i = 0"
      and frames: "\<And>k. 8 * k + 8 \<le> unat (bytes_used_at w framesPerBuffer) \<Longrightarrow>
              gained_frame fixed_mul (audio w) (decode_fifo_buf w)
                (unat (skip_bytes_at w framesPerBuffer) + 8 * k)
                out' (unat (add_bytes_at w framesPerBuffer) + 8 * k)"
      by blast
    have lt_iff: "fifo_bytes_used (fifo (audio w)) < len_at w framesPerBuffer \<longleftrightarrow>
                  U < 8 * unat framesPerBuffer"
      by (simp add: word_less_nat_alt ul U_def)
    have full: "gained_frame fixed_mul (audio w) (decode_fifo_buf w)
                  (unat (skip_bytes_at w framesPerBuffer) + 8 * k) out' (8 * k)"
      if "8 * unat framesPerBuffer \<le> U" "k < unat framesPerBuffer" for k
      using frames [of k] that ubu ab by simp
    have sk0: "unat (skip_bytes_at w framesPerBuffer) = 0" if "U < 8 * unat framesPerBuffer"
      using that by (simp add: skip_bytes_at_def unat_skip_amount ul U_def)
    have part: "gained_frame fixed_mul (audio w) (decode_fifo_buf w) (8 * k) out' (8 * k)"
      if "U < 8 * unat framesPerBuffer" "8 * k + 8 \<le> U" for k
      using frames [of k] that ubu ab sk0 by simp
    have tail': "out' ! i = 0" if "U < 8 * unat framesPerBuffer" "U \<le> i" "i < 8 * unat framesPerBuffer" for i
      using tail [of i] that ubu ab lenb by simp
    show ?thesis
      unfolding U_def [symmetric]
      using False len lenb full part tail'
      by (intro exI [of _ out'] exI [of _ "fst (projr (callback fixed_mul chk w outputBuffer framesPerBuffer))"])
         (simp add: res lt_iff underrun_set underrun_clear underrun_nz)
  qed
qed

theorem callback_output_by_fill_level_witness:
  "\<exists>w' out'.
     callback fixed_mul_16_16 (\<lambda>a. True) world_ex (replicate 16 9) 2 = Inr (w', out', paContinue) \<and>
     length out' = 16 \<and> load32 out' 0 = 3 \<and> load32 out' 4 = 8 \<and>
     out' ! 8 = 0 \<and> out' ! 15 = 0 \<and>
     state (audio w') AND DECODE_STATE_UNDERRUN \<noteq> 0"
proof -
  have h: "state (audio world_ex) AND DECODE_STATE_RUNNING \<noteq> 0"
    "add_silence_ms (audio world_ex) = 0"
    "fifo_ok (fifo (audio world_ex))"
    "frame_aligned (audio world_ex)"
    "length (replicate 16 (9 :: byte)) = 8 * unat (2 :: 32 word)"
    "0 < unat (2 :: 32 word)"
    "8 * unat (2 :: 32 word) < 2 ^ 32"
    by (simp_all add: ex_defs)
  from callback_output_by_fill_level [OF h, of fixed_mul_16_16 "\<lambda>a. True"]
  obtain w' out' where
    r: "callback fixed_mul_16_16 (\<lambda>a. True) world_ex (replicate 16 9) 2 = Inr (w', out', paContinue)"
    and l: "length out' = 8 * unat (2 :: 32 word)"
    and p: "0 < unat (fifo_bytes_used (fifo (audio world_ex))) \<and>
            unat (fifo_bytes_used (fifo (audio world_ex))) < 8 * unat (2 :: 32 word) \<longrightarrow>
         (\<forall>k. 8 * k + 8 \<le> unat (fifo_bytes_used (fifo (audio world_ex))) \<longrightarrow>
            gained_frame fixed_mul_16_16 (audio world_ex) (decode_fifo_buf world_ex) (8 * k) out' (8 * k)) \<and>
         (\<forall>i. unat (fifo_bytes_used (fifo (audio world_ex))) \<le> i \<and> i < 8 * unat (2 :: 32 word) \<longrightarrow>
            out' ! i = 0) \<and>
         state (audio w') AND DECODE_STATE_UNDERRUN \<noteq> 0"
    by blast
  from p have
    f: "\<And>k. 8 * k + 8 \<le> 8 \<Longrightarrow>
          gained_frame fixed_mul_16_16 (audio world_ex) (decode_fifo_buf world_ex) (8 * k) out' (8 * k)"
    and t: "\<And>i. 8 \<le> i \<and> i < 16 \<Longrightarrow> out' ! i = 0"
    and u: "state (audio w') AND DECODE_STATE_UNDERRUN \<noteq> 0"
    unfolding ex_values by simp_all
  have "gained_frame fixed_mul_16_16 (audio world_ex) (decode_fifo_buf world_ex) (8 * 0) out' (8 * 0)"
    by (rule f) simp
  then have "load32 out' 0 = 3 \<and> load32 out' 4 = 8"
    by (simp add: gained_frame_def world_ex_def audio_ex_def load32_def bytes_sample_def
        fixed_mul_16_16_def)
  moreover have "out' ! 8 = 0" "out' ! 15 = 0"
    by (rule t, simp)+
  ultimately show ?thesis
    using r l u by simp
qed

subsection \<open>Skip-ahead\<close>

text \<open>
  C4. In every callback a skip is computed only when the skip-ahead counter is positive
  and the buffered bytes cover the remaining length; it is then the minimum of the counter
  and of the buffered bytes minus the remaining length. So the skip never exceeds the
  buffered bytes minus the remaining length, and the bytes skipped and copied together
  never exceed the buffered bytes. A callback that runs with output left to fill, on a
  ring buffer of whole frames, takes exactly the skip off the counter, consumes the skip
  and the copy from the ring buffer and no more, and sets the underrun flag exactly when
  the buffered bytes fall short of the remaining length, whatever the skip.
\<close>

theorem callback_skip_bounded:
  "(skip_bytes_at w framesPerBuffer \<noteq> 0 \<longrightarrow>
       0 < skip_ahead_bytes (audio w) \<and>
       len_at w framesPerBuffer \<le> fifo_bytes_used (fifo (audio w))) \<and>
    (0 < skip_ahead_bytes (audio w) \<and>
     len_at w framesPerBuffer \<le> fifo_bytes_used (fifo (audio w)) \<longrightarrow>
       unat (skip_bytes_at w framesPerBuffer) =
         min (unat (skip_ahead_bytes (audio w)))
             (unat (fifo_bytes_used (fifo (audio w))) - unat (len_at w framesPerBuffer))) \<and>
    unat (skip_bytes_at w framesPerBuffer) \<le>
      unat (fifo_bytes_used (fifo (audio w))) - unat (len_at w framesPerBuffer) \<and>
    unat (skip_bytes_at w framesPerBuffer) + unat (bytes_used_at w framesPerBuffer) \<le>
      unat (fifo_bytes_used (fifo (audio w))) \<and>
    (state (audio w) AND DECODE_STATE_RUNNING \<noteq> 0 \<and>
     (add_silence_ms (audio w) \<noteq> 0 \<longrightarrow> stream_sample_rate w \<noteq> 0) \<and>
     fifo_ok (fifo (audio w)) \<and> frame_aligned (audio w) \<and>
     length outputBuffer = 8 * unat framesPerBuffer \<and> 8 * unat framesPerBuffer < 2 ^ 32 \<and>
     len_at w framesPerBuffer \<noteq> 0 \<longrightarrow>
     (\<exists>w' out'.
       callback fixed_mul chk w outputBuffer framesPerBuffer = Inr (w', out', paContinue) \<and>
       skip_ahead_bytes (audio w') =
         skip_ahead_bytes (audio w) - skip_bytes_at w framesPerBuffer \<and>
       unat (fifo_bytes_used (fifo (audio w'))) =
         unat (fifo_bytes_used (fifo (audio w))) -
           (unat (skip_bytes_at w framesPerBuffer) + unat (bytes_used_at w framesPerBuffer)) \<and>
       (state (audio w') AND DECODE_STATE_UNDERRUN \<noteq> 0 \<longleftrightarrow>
          fifo_bytes_used (fifo (audio w)) < len_at w framesPerBuffer)))"
proof -
  have p1: "skip_bytes_at w framesPerBuffer \<noteq> 0 \<longrightarrow>
       0 < skip_ahead_bytes (audio w) \<and>
       len_at w framesPerBuffer \<le> fifo_bytes_used (fifo (audio w))"
    by (auto simp: skip_bytes_at_def skip_amount_def Let_def split: if_splits)
  have p2: "0 < skip_ahead_bytes (audio w) \<and>
     len_at w framesPerBuffer \<le> fifo_bytes_used (fifo (audio w)) \<longrightarrow>
       unat (skip_bytes_at w framesPerBuffer) =
         min (unat (skip_ahead_bytes (audio w)))
             (unat (fifo_bytes_used (fifo (audio w))) - unat (len_at w framesPerBuffer))"
    by (simp add: skip_bytes_at_def unat_skip_amount word_le_nat_alt word_less_nat_alt)
  have p3: "unat (skip_bytes_at w framesPerBuffer) \<le>
      unat (fifo_bytes_used (fifo (audio w))) - unat (len_at w framesPerBuffer)"
    by (simp add: skip_bytes_at_def unat_skip_amount)
  have le: "unat (skip_bytes_at w framesPerBuffer) + unat (bytes_used_at w framesPerBuffer) \<le>
            unat (fifo_bytes_used (fifo (audio w)))"
    unfolding skip_bytes_at_def bytes_used_at_def by (rule skip_amount_fits)
  have p4: "\<exists>w' out'.
       callback fixed_mul chk w outputBuffer framesPerBuffer = Inr (w', out', paContinue) \<and>
       skip_ahead_bytes (audio w') =
         skip_ahead_bytes (audio w) - skip_bytes_at w framesPerBuffer \<and>
       unat (fifo_bytes_used (fifo (audio w'))) =
         unat (fifo_bytes_used (fifo (audio w))) -
           (unat (skip_bytes_at w framesPerBuffer) + unat (bytes_used_at w framesPerBuffer)) \<and>
       (state (audio w') AND DECODE_STATE_UNDERRUN \<noteq> 0 \<longleftrightarrow>
          fifo_bytes_used (fifo (audio w)) < len_at w framesPerBuffer)"
    if run: "state (audio w) AND DECODE_STATE_RUNNING \<noteq> 0"
      and dz: "add_silence_ms (audio w) \<noteq> 0 \<longrightarrow> stream_sample_rate w \<noteq> 0"
      and ok: "fifo_ok (fifo (audio w))"
      and al: "frame_aligned (audio w)"
      and lenb: "length outputBuffer = 8 * unat framesPerBuffer"
      and fit: "8 * unat framesPerBuffer < 2 ^ 32"
      and lnz: "len_at w framesPerBuffer \<noteq> 0"
  proof (cases "bytes_used_at w framesPerBuffer = 0")
    case True
    have lenb': "length outputBuffer = unat (SAMPLES_TO_BYTES framesPerBuffer)"
      using lenb fit by (simp add: unat_SAMPLES_TO_BYTES)
    from True lnz have u0: "fifo_bytes_used (fifo (audio w)) = 0"
      by (auto simp: bytes_used_at_def word_neq_0_conv [symmetric] split: if_splits)
    then have sk0: "skip_bytes_at w framesPerBuffer = 0"
      using lnz by (simp add: skip_bytes_at_def skip_amount_def)
    have lt: "fifo_bytes_used (fifo (audio w)) < len_at w framesPerBuffer"
      using u0 lnz by (simp add: word_neq_0_conv)
    show ?thesis
      using callback_no_copy [OF run dz lenb' True, of fixed_mul chk] lnz u0 sk0 lt True
      by (simp add: underrun_set underrun_nz)
  next
    case False
    have lenb': "length outputBuffer = unat (SAMPLES_TO_BYTES framesPerBuffer)"
      using lenb fit by (simp add: unat_SAMPLES_TO_BYTES)
    from callback_copy_state [OF run dz ok al lenb' False, of fixed_mul chk]
    obtain out' where res: "callback fixed_mul chk w outputBuffer framesPerBuffer =
           Inr (w\<lparr>audio := note_sample_rate chk (stream_sample_rate w)
                    ((audio w)\<lparr>fifo := (fifo (audio w))\<lparr>rptr :=
                         of_nat ((unat (rptr (fifo (audio w))) +
                                  unat (skip_bytes_at w framesPerBuffer) +
                                  unat (bytes_used_at w framesPerBuffer))
                                 mod unat (fifo_size (fifo (audio w))))\<rparr>,
                      state := (if fifo_bytes_used (fifo (audio w)) < len_at w framesPerBuffer
                                then state (audio w) OR DECODE_STATE_UNDERRUN
                                else state (audio w) AND NOT DECODE_STATE_UNDERRUN),
                      skip_ahead_bytes := skip_ahead_bytes (audio w) -
                         skip_bytes_at w framesPerBuffer,
                      elapsed_samples := elapsed_samples (audio w) +
                         BYTES_TO_SAMPLES (skip_bytes_at w framesPerBuffer) +
                         BYTES_TO_SAMPLES (bytes_used_at w framesPerBuffer)\<rparr>),
                  trace := trace w @
                    [Audio_lock, Audio_unlock,
                     Sample_mix (unat (SAMPLES_TO_BYTES framesPerBuffer))]\<rparr>,
                out', paContinue)"
      by blast
    have used: "unat (fifo_bytes_used ((fifo (audio w))\<lparr>rptr :=
                   of_nat ((unat (rptr (fifo (audio w))) +
                            (unat (skip_bytes_at w framesPerBuffer) +
                             unat (bytes_used_at w framesPerBuffer)))
                           mod unat (fifo_size (fifo (audio w))))\<rparr>)) =
                unat (fifo_bytes_used (fifo (audio w))) -
                  (unat (skip_bytes_at w framesPerBuffer) + unat (bytes_used_at w framesPerBuffer))"
      by (rule fifo_bytes_used_after [OF ok le])
    show ?thesis
      using le used
      by (simp add: res add.assoc underrun_set underrun_clear underrun_nz)
  qed
  from p1 p2 p3 le p4 show ?thesis by blast
qed

theorem callback_skip_bounded_witness:
  "unat (skip_bytes_at world_ex2 1) = 16 \<and>
   (\<exists>w' out'.
      callback fixed_mul_16_16 (\<lambda>a. True) world_ex2 (replicate 8 9) 1 = Inr (w', out', paContinue) \<and>
      skip_ahead_bytes (audio w') = 0 \<and>
      unat (fifo_bytes_used (fifo (audio w'))) = 0 \<and>
      state (audio w') AND DECODE_STATE_UNDERRUN = 0)"
proof -
  have h: "state (audio world_ex2) AND DECODE_STATE_RUNNING \<noteq> 0 \<and>
     (add_silence_ms (audio world_ex2) \<noteq> 0 \<longrightarrow> stream_sample_rate world_ex2 \<noteq> 0) \<and>
     fifo_ok (fifo (audio world_ex2)) \<and> frame_aligned (audio world_ex2) \<and>
     length (replicate 8 (9 :: byte)) = 8 * unat (1 :: 32 word) \<and>
     8 * unat (1 :: 32 word) < 2 ^ 32 \<and>
     len_at world_ex2 1 \<noteq> 0"
    unfolding ex_values by (simp add: ex_defs)
  from callback_skip_bounded [of world_ex2 1 "replicate 8 9" fixed_mul_16_16 "\<lambda>a. True"] h
  show ?thesis
    unfolding ex_values by (simp add: ex_defs)
qed

subsection \<open>Gain\<close>

text \<open>
  C5. The copy loop writes, for every whole frame it copies, the left sample of the ring
  buffer times the left gain and the right sample times the right gain, by the one
  \<open>fixed_mul\<close>, for the frames before the wrap of the ring buffer and for those after
  it alike (the second segment starts at index 0).
\<close>

theorem copy_loop_applies_gain:
  assumes "rptr (fifo a) < fifo_size (fifo a)"
    and "8 dvd unat (rptr (fifo a))"
    and "8 dvd unat (fifo_size (fifo a))"
    and "oa + unat bytes_used \<le> length out"
  shows "\<exists>a' out'. copy_loop fixed_mul buf a out oa bytes_used = Some (a', out') \<and>
           (\<forall>k. 8 * k + 8 \<le> unat bytes_used \<longrightarrow>
                gained_frame fixed_mul a buf (8 * k) out' (oa + 8 * k))"
proof -
  have "unat (rptr (fifo a)) < unat (fifo_size (fifo a))"
    using assms(1) by (simp add: word_less_nat_alt)
  from copy_loop_correct [OF this assms(3) disjI1 [OF assms(2)] assms(4), of fixed_mul buf]
  show ?thesis
    unfolding gained_frame_def by blast
qed

theorem copy_loop_applies_gain_witness:
  "\<exists>a' out'. copy_loop fixed_mul_16_16 (decode_fifo_buf world_ex) audio_ex (replicate 16 9) 0 16 =
       Some (a', out') \<and>
     load32 out' 0 = 3 \<and> load32 out' 4 = 8 \<and> load32 out' 8 = 1 \<and> load32 out' 12 = 4"
proof -
  have h: "rptr (fifo audio_ex) < fifo_size (fifo audio_ex)"
    "8 dvd unat (rptr (fifo audio_ex))" "8 dvd unat (fifo_size (fifo audio_ex))"
    "0 + unat (16 :: size_t) \<le> length (replicate 16 (9 :: byte))"
    by (simp_all add: audio_ex_def)
  from copy_loop_applies_gain [OF h, of fixed_mul_16_16 "decode_fifo_buf world_ex"]
  obtain a' out' where
    r: "copy_loop fixed_mul_16_16 (decode_fifo_buf world_ex) audio_ex (replicate 16 9) 0 16 =
          Some (a', out')"
    and f: "\<And>k. 8 * k + 8 \<le> unat (16 :: size_t) \<Longrightarrow>
              gained_frame fixed_mul_16_16 audio_ex (decode_fifo_buf world_ex) (8 * k) out' (0 + 8 * k)"
    by blast
  have "gained_frame fixed_mul_16_16 audio_ex (decode_fifo_buf world_ex) (8 * 0) out' (0 + 8 * 0)"
    by (rule f) simp
  moreover have "gained_frame fixed_mul_16_16 audio_ex (decode_fifo_buf world_ex) (8 * 1) out' (0 + 8 * 1)"
    by (rule f) simp
  ultimately have "load32 out' 0 = 3 \<and> load32 out' 4 = 8 \<and> load32 out' 8 = 1 \<and> load32 out' 12 = 4"
    by (simp add: gained_frame_def audio_ex_def world_ex_def load32_def bytes_sample_def
        fixed_mul_16_16_def)
  with r show ?thesis by blast
qed

subsection \<open>Elapsed samples\<close>

text \<open>
  C6. Over one callback the elapsed-sample counter grows by the frames of the bytes
  skipped plus the bytes copied (32-bit addition), also when the skip or the copy wraps
  around the end of the ring buffer; the read index advances by the same bytes, modulo
  the capacity. When the player is not running, when the whole output is silence, and
  when nothing is buffered, the counter, the ring buffer indices and the skip-ahead
  counter stay as they were.
\<close>

theorem callback_elapsed_samples:
  assumes ok: "fifo_ok (fifo (audio w))"
    and al: "frame_aligned (audio w)"
    and lenb: "length outputBuffer = 8 * unat framesPerBuffer"
    and fit: "8 * unat framesPerBuffer < 2 ^ 32"
    and dz: "state (audio w) AND DECODE_STATE_RUNNING \<noteq> 0 \<and> add_silence_ms (audio w) \<noteq> 0 \<longrightarrow>
             stream_sample_rate w \<noteq> 0"
  shows "\<exists>w' out'.
      callback fixed_mul chk w outputBuffer framesPerBuffer = Inr (w', out', paContinue) \<and>
      (if state (audio w) AND DECODE_STATE_RUNNING = 0 \<or> len_at w framesPerBuffer = 0 \<or>
          fifo_bytes_used (fifo (audio w)) = 0
       then elapsed_samples (audio w') = elapsed_samples (audio w) \<and>
            fifo (audio w') = fifo (audio w) \<and>
            skip_ahead_bytes (audio w') = skip_ahead_bytes (audio w)
       else elapsed_samples (audio w') =
              elapsed_samples (audio w) +
              BYTES_TO_SAMPLES (skip_bytes_at w framesPerBuffer + bytes_used_at w framesPerBuffer) \<and>
            unat (rptr (fifo (audio w'))) =
              (unat (rptr (fifo (audio w))) + unat (skip_bytes_at w framesPerBuffer) +
               unat (bytes_used_at w framesPerBuffer)) mod unat (fifo_size (fifo (audio w))) \<and>
            skip_ahead_bytes (audio w') =
              skip_ahead_bytes (audio w) - skip_bytes_at w framesPerBuffer)"
proof (cases "state (audio w) AND DECODE_STATE_RUNNING = 0")
  case True
  then show ?thesis
    by (simp add: callback_stopped)
next
  case run: False
  then have dz': "add_silence_ms (audio w) \<noteq> 0 \<longrightarrow> stream_sample_rate w \<noteq> 0"
    using dz by simp
  have lenb': "length outputBuffer = unat (SAMPLES_TO_BYTES framesPerBuffer)"
    using lenb fit by (simp add: unat_SAMPLES_TO_BYTES)
  have z_iff: "bytes_used_at w framesPerBuffer = 0 \<longleftrightarrow>
               len_at w framesPerBuffer = 0 \<or> fifo_bytes_used (fifo (audio w)) = 0"
    by (auto simp: bytes_used_at_def word_neq_0_conv [symmetric])
  show ?thesis
  proof (cases "bytes_used_at w framesPerBuffer = 0")
    case True
    show ?thesis
      using callback_no_copy [OF run dz' lenb' True, of fixed_mul chk] True run z_iff
      by auto
  next
    case False
    from callback_copy_state [OF run dz' ok al lenb' False, of fixed_mul chk]
    obtain out' where res: "callback fixed_mul chk w outputBuffer framesPerBuffer =
           Inr (w\<lparr>audio := note_sample_rate chk (stream_sample_rate w)
                    ((audio w)\<lparr>fifo := (fifo (audio w))\<lparr>rptr :=
                         of_nat ((unat (rptr (fifo (audio w))) +
                                  unat (skip_bytes_at w framesPerBuffer) +
                                  unat (bytes_used_at w framesPerBuffer))
                                 mod unat (fifo_size (fifo (audio w))))\<rparr>,
                      state := (if fifo_bytes_used (fifo (audio w)) < len_at w framesPerBuffer
                                then state (audio w) OR DECODE_STATE_UNDERRUN
                                else state (audio w) AND NOT DECODE_STATE_UNDERRUN),
                      skip_ahead_bytes := skip_ahead_bytes (audio w) -
                         skip_bytes_at w framesPerBuffer,
                      elapsed_samples := elapsed_samples (audio w) +
                         BYTES_TO_SAMPLES (skip_bytes_at w framesPerBuffer) +
                         BYTES_TO_SAMPLES (bytes_used_at w framesPerBuffer)\<rparr>),
                  trace := trace w @
                    [Audio_lock, Audio_unlock,
                     Sample_mix (unat (SAMPLES_TO_BYTES framesPerBuffer))]\<rparr>,
                out', paContinue)"
      by blast
    show ?thesis
      using False run z_iff
      by (simp add: res unat_new_rptr [OF ok] skip_plus_used(1) [OF ok al, symmetric] add.assoc)
  qed
qed

theorem callback_elapsed_samples_witness:
  "\<exists>w' out'.
     callback fixed_mul_16_16 (\<lambda>a. True) world_ex2 (replicate 8 9) 1 = Inr (w', out', paContinue) \<and>
     elapsed_samples (audio w') = 8 \<and> unat (rptr (fifo (audio w'))) = 16 \<and>
     skip_ahead_bytes (audio w') = 0"
proof -
  have h: "fifo_ok (fifo (audio world_ex2))"
    "frame_aligned (audio world_ex2)"
    "length (replicate 8 (9 :: byte)) = 8 * unat (1 :: 32 word)"
    "8 * unat (1 :: 32 word) < 2 ^ 32"
    "state (audio world_ex2) AND DECODE_STATE_RUNNING \<noteq> 0 \<and> add_silence_ms (audio world_ex2) \<noteq> 0 \<longrightarrow>
       stream_sample_rate world_ex2 \<noteq> 0"
    by (simp_all add: ex_defs)
  from callback_elapsed_samples [OF h, of fixed_mul_16_16 "\<lambda>a. True"]
  show ?thesis
    unfolding ex_values by (simp add: ex_defs BYTES_TO_SAMPLES_def)
qed

subsection \<open>Sample rate changes\<close>

text \<open>
  C7. A callback that copied audio sets the pending target rate to the track's sample
  rate when \<open>decode_check_start_point\<close> holds of the state it left and the track's rate
  differs from the stream's, and leaves it alone otherwise. Its only calls are lock,
  unlock and the mixer: it does not open, close or start a stream, and it leaves the
  stream, its rate and the queue as they were. The stream-finished notifier enqueues the
  handler exactly when the pending target rate is not 0 and the queue slot is free, and
  the worker runs \<open>decode_portaudio_openstream\<close> for the queued handler.
\<close>

theorem rate_change_deferred:
  assumes run: "state (audio w) AND DECODE_STATE_RUNNING \<noteq> 0"
    and dz: "add_silence_ms (audio w) \<noteq> 0 \<longrightarrow> stream_sample_rate w \<noteq> 0"
    and ok: "fifo_ok (fifo (audio w))"
    and al: "frame_aligned (audio w)"
    and lenb: "length outputBuffer = 8 * unat framesPerBuffer"
    and fit: "8 * unat framesPerBuffer < 2 ^ 32"
    and copied: "bytes_used_at w framesPerBuffer \<noteq> 0"
  shows
   "(\<exists>w' out'.
       callback fixed_mul decode_check_start_point w outputBuffer framesPerBuffer =
         Inr (w', out', paContinue) \<and>
       set_sample_rate (audio w') =
         (if decode_check_start_point ((audio w')\<lparr>set_sample_rate := set_sample_rate (audio w)\<rparr>) \<and>
             track_sample_rate (audio w) \<noteq> stream_sample_rate w
          then track_sample_rate (audio w) else set_sample_rate (audio w)) \<and>
       trace w' = trace w @ [Audio_lock, Audio_unlock, Sample_mix (8 * unat framesPerBuffer)] \<and>
       stream w' = stream w \<and> stream_sample_rate w' = stream_sample_rate w \<and>
       decode_mqueue w' = decode_mqueue w) \<and>
    finished v =
      (if set_sample_rate (audio v) \<noteq> 0 \<and> decode_mqueue v = []
       then v\<lparr>decode_mqueue := [Finished_handler]\<rparr> else v) \<and>
    worker_execute other_handler new_stream (v\<lparr>decode_mqueue := Finished_handler # q\<rparr>) =
      decode_portaudio_openstream new_stream (v\<lparr>decode_mqueue := q\<rparr>)"
proof -
  have lenb': "length outputBuffer = unat (SAMPLES_TO_BYTES framesPerBuffer)"
    using lenb fit by (simp add: unat_SAMPLES_TO_BYTES)
  from callback_copy_state [OF run dz ok al lenb' copied, of fixed_mul decode_check_start_point]
  obtain out' where res: "callback fixed_mul decode_check_start_point w outputBuffer framesPerBuffer =
           Inr (w\<lparr>audio := note_sample_rate decode_check_start_point (stream_sample_rate w)
                    ((audio w)\<lparr>fifo := (fifo (audio w))\<lparr>rptr :=
                         of_nat ((unat (rptr (fifo (audio w))) +
                                  unat (skip_bytes_at w framesPerBuffer) +
                                  unat (bytes_used_at w framesPerBuffer))
                                 mod unat (fifo_size (fifo (audio w))))\<rparr>,
                      state := (if fifo_bytes_used (fifo (audio w)) < len_at w framesPerBuffer
                                then state (audio w) OR DECODE_STATE_UNDERRUN
                                else state (audio w) AND NOT DECODE_STATE_UNDERRUN),
                      skip_ahead_bytes := skip_ahead_bytes (audio w) -
                         skip_bytes_at w framesPerBuffer,
                      elapsed_samples := elapsed_samples (audio w) +
                         BYTES_TO_SAMPLES (skip_bytes_at w framesPerBuffer) +
                         BYTES_TO_SAMPLES (bytes_used_at w framesPerBuffer)\<rparr>),
                  trace := trace w @
                    [Audio_lock, Audio_unlock,
                     Sample_mix (unat (SAMPLES_TO_BYTES framesPerBuffer))]\<rparr>,
                out', paContinue)"
    by blast
  define A where "A = (audio w)\<lparr>fifo := (fifo (audio w))\<lparr>rptr :=
                         of_nat ((unat (rptr (fifo (audio w))) +
                                  unat (skip_bytes_at w framesPerBuffer) +
                                  unat (bytes_used_at w framesPerBuffer))
                                 mod unat (fifo_size (fifo (audio w))))\<rparr>,
                      state := (if fifo_bytes_used (fifo (audio w)) < len_at w framesPerBuffer
                                then state (audio w) OR DECODE_STATE_UNDERRUN
                                else state (audio w) AND NOT DECODE_STATE_UNDERRUN),
                      skip_ahead_bytes := skip_ahead_bytes (audio w) -
                         skip_bytes_at w framesPerBuffer,
                      elapsed_samples := elapsed_samples (audio w) +
                         BYTES_TO_SAMPLES (skip_bytes_at w framesPerBuffer) +
                         BYTES_TO_SAMPLES (bytes_used_at w framesPerBuffer)\<rparr>"
  have sA: "set_sample_rate (audio w) = set_sample_rate A"
    and tA: "track_sample_rate (audio w) = track_sample_rate A"
    by (simp_all add: A_def)
  have nsr: "(note_sample_rate chk rate a)\<lparr>set_sample_rate := set_sample_rate a\<rparr> = a" for chk rate a
    by (simp add: note_sample_rate_def Let_def)
  have nsr2: "set_sample_rate (note_sample_rate chk rate a) =
        (if chk a \<and> track_sample_rate a \<noteq> rate then track_sample_rate a else set_sample_rate a)"
    for chk rate a
    by (simp add: note_sample_rate_def Let_def)
  have a: "\<exists>w' out'.
       callback fixed_mul decode_check_start_point w outputBuffer framesPerBuffer =
         Inr (w', out', paContinue) \<and>
       set_sample_rate (audio w') =
         (if decode_check_start_point ((audio w')\<lparr>set_sample_rate := set_sample_rate (audio w)\<rparr>) \<and>
             track_sample_rate (audio w) \<noteq> stream_sample_rate w
          then track_sample_rate (audio w) else set_sample_rate (audio w)) \<and>
       trace w' = trace w @ [Audio_lock, Audio_unlock, Sample_mix (8 * unat framesPerBuffer)] \<and>
       stream w' = stream w \<and> stream_sample_rate w' = stream_sample_rate w \<and>
       decode_mqueue w' = decode_mqueue w"
    unfolding res A_def [symmetric] sA tA
    using fit by (simp add: nsr nsr2 unat_SAMPLES_TO_BYTES)
  have b: "finished v =
      (if set_sample_rate (audio v) \<noteq> 0 \<and> decode_mqueue v = []
       then v\<lparr>decode_mqueue := [Finished_handler]\<rparr> else v)"
    by (simp add: finished_def mqueue_write_request_def mqueue_write_complete_def)
  have c: "worker_execute other_handler new_stream (v\<lparr>decode_mqueue := Finished_handler # q\<rparr>) =
      decode_portaudio_openstream new_stream (v\<lparr>decode_mqueue := q\<rparr>)"
    by (simp add: worker_execute_def finished_handler_def mqueue_read_complete_def)
  from a b c show ?thesis by blast
qed

theorem rate_change_deferred_witness:
  "(\<exists>w' out'.
      callback fixed_mul_16_16 (\<lambda>a. True) world_ex (replicate 8 9) 1 = Inr (w', out', paContinue) \<and>
      set_sample_rate (audio w') = 48000 \<and>
      trace w' = [Audio_lock, Audio_unlock, Sample_mix 8] \<and>
      stream w' = Some 1 \<and> stream_sample_rate w' = 44100 \<and> decode_mqueue w' = []) \<and>
   finished (world_ex\<lparr>audio := audio_ex\<lparr>set_sample_rate := 48000\<rparr>\<rparr>) =
     world_ex\<lparr>audio := audio_ex\<lparr>set_sample_rate := 48000\<rparr>, decode_mqueue := [Finished_handler]\<rparr> \<and>
   stream_sample_rate
     (worker_execute (\<lambda>n v. v) (Some 2)
        (world_ex\<lparr>audio := audio_ex\<lparr>set_sample_rate := 48000\<rparr>,
                  decode_mqueue := [Finished_handler]\<rparr>)) = 48000"
proof -
  have h: "state (audio world_ex) AND DECODE_STATE_RUNNING \<noteq> 0"
    "add_silence_ms (audio world_ex) \<noteq> 0 \<longrightarrow> stream_sample_rate world_ex \<noteq> 0"
    "fifo_ok (fifo (audio world_ex))"
    "frame_aligned (audio world_ex)"
    "length (replicate 8 (9 :: byte)) = 8 * unat (1 :: 32 word)"
    "8 * unat (1 :: 32 word) < 2 ^ 32"
    "bytes_used_at world_ex 1 \<noteq> 0"
    by (simp_all add: ex_values) (simp_all add: ex_defs)
  from rate_change_deferred [OF h, of fixed_mul_16_16 "\<lambda>a. True"
      "world_ex\<lparr>audio := audio_ex\<lparr>set_sample_rate := 48000\<rparr>\<rparr>" "\<lambda>n v. v" "Some 2" "[]"]
  show ?thesis
    by (simp add: ex_defs decode_portaudio_openstream_def Let_def emit_def)
qed

subsection \<open>The callback while playback is stopped\<close>

text \<open>
  C9. When the running flag is clear, the callback zeroes the whole output buffer of
  \<open>framesPerBuffer\<close> frames, leaves the shared audio state (elapsed samples, read
  index, underrun flag, skip-ahead counter) as it was, calls the effects mixer over the
  full byte length of the request, and returns \<open>paContinue\<close>.
\<close>

theorem callback_not_running:
  assumes "state (audio w) AND DECODE_STATE_RUNNING = 0"
    and "length outputBuffer = 8 * unat framesPerBuffer"
    and "8 * unat framesPerBuffer < 2 ^ 32"
  shows "callback fixed_mul chk w outputBuffer framesPerBuffer =
           Inr (w\<lparr>trace := trace w @ [Audio_lock, Sample_mix (8 * unat framesPerBuffer)]\<rparr>,
                replicate (8 * unat framesPerBuffer) 0, paContinue)"
  using assms
  by (simp add: callback_def Let_def emit_def mixin_effects_def unat_SAMPLES_TO_BYTES
      memset0_all)

theorem callback_not_running_witness:
  "callback fixed_mul_16_16 (\<lambda>a. True) (world_ex\<lparr>audio := audio_ex\<lparr>state := 2\<rparr>\<rparr>)
     (replicate 16 9) 2 =
   Inr (world_ex\<lparr>audio := audio_ex\<lparr>state := 2\<rparr>, trace := [Audio_lock, Sample_mix 16]\<rparr>,
        replicate 16 0, paContinue)"
  using callback_not_running [of "world_ex\<lparr>audio := audio_ex\<lparr>state := 2\<rparr>\<rparr>"
      "replicate 16 9" 2 fixed_mul_16_16 "\<lambda>a. True"]
  by (simp add: world_ex_def audio_ex_def DECODE_STATE_RUNNING_def)

text \<open>
  C2. On the path taken when the running flag is clear the callback jumps to the label
  \<open>mixin_effects\<close>, past the call of \<open>decode_audio_unlock\<close>: the lock taken at the
  start is still held when the mixer runs and when the callback returns. The run below
  is a stopped player asked for one frame.
\<close>

theorem stopped_callback_keeps_lock:
  "callback fixed_mul_16_16 (\<lambda>a. True) (world_ex\<lparr>audio := audio_ex\<lparr>state := 0\<rparr>\<rparr>)
     (replicate 8 9) 1 =
   Inr (world_ex\<lparr>audio := audio_ex\<lparr>state := 0\<rparr>, trace := [Audio_lock, Sample_mix 8]\<rparr>,
        [0, 0, 0, 0, 0, 0, 0, 0], paContinue)"
  by (simp add: callback_def Let_def emit_def mixin_effects_def world_ex_def audio_ex_def
      DECODE_STATE_RUNNING_def SAMPLES_TO_BYTES_def memset0_def upt_rec)

subsection \<open>Pending silence\<close>

text \<open>
  C3. The callback decrements its local copy of \<open>add_silence_ms\<close> and never stores
  it back: with 10 ms of silence pending, a stream at 8000 Hz and a request of 16 frames
  (2 ms), the whole output is silence, the local copy becomes 8, and the shared
  \<open>add_silence_ms\<close> is still 10 after the callback, and after the next one.
\<close>

theorem callback_keeps_shared_add_silence_ms:
  "callback fixed_mul_16_16 (\<lambda>a. True)
     (world_ex\<lparr>audio := audio_ex\<lparr>add_silence_ms := 10\<rparr>, stream_sample_rate := 8000\<rparr>)
     (replicate 128 9) 16 =
   Inr (world_ex\<lparr>audio := audio_ex\<lparr>add_silence_ms := 10\<rparr>, stream_sample_rate := 8000,
                 trace := [Audio_lock, Audio_unlock, Sample_mix 128]\<rparr>,
        replicate 128 0, paContinue) \<and>
   silence_left 8000 10 (silence_bytes 8000 10 128) = Inr 8 \<and>
   callback fixed_mul_16_16 (\<lambda>a. True)
     (world_ex\<lparr>audio := audio_ex\<lparr>add_silence_ms := 10\<rparr>, stream_sample_rate := 8000,
               trace := [Audio_lock, Audio_unlock, Sample_mix 128]\<rparr>)
     (replicate 128 9) 16 =
   Inr (world_ex\<lparr>audio := audio_ex\<lparr>add_silence_ms := 10\<rparr>, stream_sample_rate := 8000,
                 trace := [Audio_lock, Audio_unlock, Sample_mix 128,
                           Audio_lock, Audio_unlock, Sample_mix 128]\<rparr>,
        replicate 128 0, paContinue)"
  by (simp add: callback_def Let_def emit_def mixin_effects_def unlock_mixin_effects_def
      world_ex_def audio_ex_def DECODE_STATE_RUNNING_def SAMPLES_TO_BYTES_def
      BYTES_TO_SAMPLES_def silence_bytes_def silence_left_def memset0_all word_sless_alt)

subsection \<open>The stream-finished notifier and the reconfiguration channel\<close>

lemma callback_keeps_queue:
  "callback fixed_mul chk w outputBuffer framesPerBuffer = Inr (w', out', r) \<Longrightarrow>
   decode_mqueue w' = decode_mqueue w"
  by (auto simp: callback_def render_def Let_def unlock_mixin_effects_def mixin_effects_def
      emit_def split: if_splits sum.splits option.splits prod.splits)

lemma openstream_keeps_queue:
  "decode_mqueue (decode_portaudio_openstream new_stream w) = decode_mqueue w"
  by (simp add: decode_portaudio_openstream_def Let_def emit_def)

text \<open>
  C8. When a request is pending in the queue, whatever request it is and whatever the
  pending target rate, the stream-finished notifier leaves the whole state as it was: the
  enqueue fails at once and the new request is dropped; it is not queued behind the
  pending request, and the pending request is not replaced. The notifier writes only to
  an empty queue, and then one request. So a queue of at most one request has at most one
  request after every operation of this file: the notifier, the queued handler (which
  frees the slot), opening, starting and stopping the stream, and the callback.
\<close>

theorem finished_drops_when_pending:
  "(decode_mqueue w \<noteq> [] \<longrightarrow> finished w = w) \<and>
   (decode_mqueue w = [] \<longrightarrow> length (decode_mqueue (finished w)) \<le> 1) \<and>
   (length (decode_mqueue w) \<le> 1 \<longrightarrow>
      length (decode_mqueue (finished w)) \<le> 1 \<and>
      decode_mqueue (finished_handler new_stream w) = [] \<and>
      length (decode_mqueue (decode_portaudio_openstream new_stream w)) \<le> 1 \<and>
      length (decode_mqueue (decode_portaudio_start new_stream w)) \<le> 1 \<and>
      length (decode_mqueue (decode_portaudio_stop new_stream w)) \<le> 1 \<and>
      (\<forall>w' out' r. callback fixed_mul chk w outputBuffer framesPerBuffer = Inr (w', out', r) \<longrightarrow>
         length (decode_mqueue w') \<le> 1))"
proof -
  have a: "decode_mqueue w \<noteq> [] \<longrightarrow> finished w = w"
    by (simp add: finished_def mqueue_write_request_def)
  have b: "decode_mqueue w = [] \<longrightarrow> length (decode_mqueue (finished w)) \<le> 1"
    by (simp add: finished_def mqueue_write_request_def mqueue_write_complete_def)
  have c: "length (decode_mqueue (finished w)) \<le> 1" if "length (decode_mqueue w) \<le> 1"
    using that a b by (cases "decode_mqueue w = []") auto
  have d: "decode_mqueue (finished_handler new_stream w) = []" if "length (decode_mqueue w) \<le> 1"
    using that
    by (cases "decode_mqueue w")
      (simp_all add: finished_handler_def openstream_keeps_queue mqueue_read_complete_def)
  have e: "length (decode_mqueue (decode_portaudio_openstream new_stream w)) \<le> 1"
    "length (decode_mqueue (decode_portaudio_start new_stream w)) \<le> 1"
    "length (decode_mqueue (decode_portaudio_stop new_stream w)) \<le> 1"
    if "length (decode_mqueue w) \<le> 1"
    using that
    by (simp_all add: decode_portaudio_start_def decode_portaudio_stop_def
        openstream_keeps_queue)
  have f: "length (decode_mqueue w') \<le> 1"
    if "length (decode_mqueue w) \<le> 1"
      and "callback fixed_mul chk w outputBuffer framesPerBuffer = Inr (w', out', r)"
    for w' out' r
    using that callback_keeps_queue [of fixed_mul chk w outputBuffer framesPerBuffer w' out' r]
    by simp
  from a b c d e f show ?thesis by blast
qed

theorem finished_drops_when_pending_witness:
  "finished (world_ex\<lparr>audio := audio_ex\<lparr>set_sample_rate := 48000\<rparr>,
                     decode_mqueue := [Other_request 7]\<rparr>) =
     world_ex\<lparr>audio := audio_ex\<lparr>set_sample_rate := 48000\<rparr>,
              decode_mqueue := [Other_request 7]\<rparr> \<and>
   decode_mqueue
     (finished (world_ex\<lparr>audio := audio_ex\<lparr>set_sample_rate := 48000\<rparr>,
                         decode_mqueue := [Other_request 7]\<rparr>)) = [Other_request 7] \<and>
   length (decode_mqueue
     (finished (world_ex\<lparr>audio := audio_ex\<lparr>set_sample_rate := 48000\<rparr>,
                         decode_mqueue := [Other_request 7]\<rparr>))) \<le> 1"
  using finished_drops_when_pending
    [of "world_ex\<lparr>audio := audio_ex\<lparr>set_sample_rate := 48000\<rparr>,
                  decode_mqueue := [Other_request 7]\<rparr>" "Some 2"]
  by simp

subsection \<open>Opening the stream\<close>

text \<open>
  C10. \<open>decode_portaudio_openstream\<close> reads the pending target rate between lock and
  unlock, resets it to 0, opens the stream at the value read and records that value as
  the stream's sample rate, whatever the value is (0 included). So after an open from
  start, from stop or from the queued handler the pending target rate is 0.
\<close>

theorem openstream_takes_pending_rate:
  "set_sample_rate (audio (decode_portaudio_openstream new_stream w)) = 0 \<and>
   stream_sample_rate (decode_portaudio_openstream new_stream w) = set_sample_rate (audio w) \<and>
   trace (decode_portaudio_openstream new_stream w) =
     trace w @ (if stream w \<noteq> None then [Pa_CloseStream] else []) @
       [Audio_lock, Audio_unlock, Pa_OpenStream (set_sample_rate (audio w)),
        Pa_SetStreamFinishedCallback, Pa_StartStream] \<and>
   set_sample_rate (audio (decode_portaudio_start new_stream w)) = 0 \<and>
   set_sample_rate (audio (decode_portaudio_stop new_stream w)) = 0 \<and>
   stream_sample_rate (decode_portaudio_stop new_stream w) = 44100 \<and>
   set_sample_rate (audio (finished_handler new_stream w)) = 0 \<and>
   set_sample_rate
     (audio (worker_execute other_handler new_stream
               (w\<lparr>decode_mqueue := Finished_handler # q\<rparr>))) = 0"
  by (simp add: decode_portaudio_openstream_def decode_portaudio_start_def
      decode_portaudio_stop_def finished_handler_def worker_execute_def Let_def emit_def)

theorem openstream_takes_pending_rate_witness:
  "stream_sample_rate (decode_portaudio_openstream (Some 2) world_ex) = 0 \<and>
   trace (decode_portaudio_openstream (Some 2) world_ex) =
     [Pa_CloseStream, Audio_lock, Audio_unlock, Pa_OpenStream 0,
      Pa_SetStreamFinishedCallback, Pa_StartStream]"
  using openstream_takes_pending_rate [of "Some 2" world_ex]
  by (simp add: world_ex_def audio_ex_def)

end
